theory Spec2Isabelle
  imports Complex_Main
begin

section \<open>Values, arrays and errors\<close>

text \<open>
  A float64 is modelled as an exact real or the not-a-number sentinel; rounding and the
  IEEE infinities are outside the model. Arithmetic propagates \<open>NaN\<close> as numpy does.
\<close>

datatype fval = NaN | Val real

fun fadd :: "fval \<Rightarrow> fval \<Rightarrow> fval" where
  "fadd (Val a) (Val b) = Val (a + b)"
| "fadd _ _ = NaN"

fun fsub :: "fval \<Rightarrow> fval \<Rightarrow> fval" where
  "fsub (Val a) (Val b) = Val (a - b)"
| "fsub _ _ = NaN"

fun fmul :: "fval \<Rightarrow> fval \<Rightarrow> fval" where
  "fmul (Val a) (Val b) = Val (a * b)"
| "fmul _ _ = NaN"

fun fneg :: "fval \<Rightarrow> fval" where
  "fneg (Val a) = Val (- a)"
| "fneg NaN = NaN"

text \<open>\<open>sp.sum\<close> of a float array.\<close>

definition fsum :: "fval list \<Rightarrow> fval" where
  "fsum xs = foldr fadd xs (Val 0)"

text \<open>The arrays kept in the algorithm's dictionary: boolean label arrays and float value arrays.\<close>

datatype parray = BoolArr "bool list" | FloatArr "fval list"

text \<open>
  The source raises plain \<open>Exception\<close>s; they carry the names the specification gives
  them (\<open>InvalidArgument\<close>, \<open>PreconditionViolation\<close>). The other constructors are the
  exceptions of the dictionary and of numpy.
\<close>

datatype error = InvalidArgument | PreconditionViolation | KeyError | IndexError
  | ValueError | TypeError | UnboundLocalError

text \<open>The \<open>bcvalues\<close> argument: a single number or an array of numbers.\<close>

datatype bcvalues = Scalar fval | Values "fval list"

text \<open>\<open>sp.array(bcvalues).size\<close>\<close>

fun size_of :: "bcvalues \<Rightarrow> nat" where
  "size_of (Scalar v) = 1"
| "size_of (Values vs) = length vs"

text \<open>
  The algorithm object: a dictionary from property names to arrays, the number of pores
  \<open>Np\<close> of its network, and \<open>settings['quantity']\<close>.
\<close>

record algorithm =
  Np :: nat
  props :: "string \<rightharpoonup> parray"
  quantity :: "string option"

section \<open>numpy indexed assignment\<close>

text \<open>
  \<open>a[idx] = vals\<close> with an index array: every index is checked first (IndexError, and
  nothing is written), then the values are written in order, so that the last write to a
  repeated index wins.
\<close>

definition put :: "'a list \<Rightarrow> nat list \<Rightarrow> 'a list \<Rightarrow> error + 'a list" where
  "put a idx vals =
     (if list_all (\<lambda>i. i < length a) idx
      then Inr (fold (\<lambda>(i, v) b. b[i := v]) (zip idx vals) a)
      else Inl IndexError)"

text \<open>
  The values of an assignment \<open>a[idx] = values\<close> are broadcast to the number of indices:
  a value of size 1 is repeated, a value of that very size is used as it is, any other
  size is numpy's ValueError (shape mismatch).
\<close>

fun broadcast :: "bcvalues \<Rightarrow> nat \<Rightarrow> error + fval list" where
  "broadcast (Scalar v) n = Inr (replicate n v)"
| "broadcast (Values vs) n =
     (if length vs = 1 then Inr (replicate n (hd vs))
      else if length vs = n then Inr vs
      else Inl ValueError)"

text \<open>numpy's casts between the two element types when a value is stored in an array.\<close>

definition bool_of_fval :: "fval \<Rightarrow> bool" where
  "bool_of_fval v = (v \<noteq> Val 0)"

definition fval_of_bool :: "bool \<Rightarrow> fval" where
  "fval_of_bool b = (if b then Val 1 else Val 0)"

text \<open>\<open>arr[idx] = b\<close> for a boolean scalar \<open>b\<close>.\<close>

fun put_bool :: "parray \<Rightarrow> nat list \<Rightarrow> bool \<Rightarrow> error + parray" where
  "put_bool (BoolArr a) idx b = map_sum id BoolArr (put a idx (replicate (length idx) b))"
| "put_bool (FloatArr a) idx b =
     map_sum id FloatArr (put a idx (replicate (length idx) (fval_of_bool b)))"

text \<open>\<open>arr[idx] = values\<close> for float values.\<close>

fun put_floats :: "parray \<Rightarrow> nat list \<Rightarrow> bcvalues \<Rightarrow> error + parray" where
  "put_floats (FloatArr a) idx values =
     (case broadcast values (length idx) of
        Inl e \<Rightarrow> Inl e
      | Inr vs \<Rightarrow> map_sum id FloatArr (put a idx vs))"
| "put_floats (BoolArr a) idx values =
     (case broadcast values (length idx) of
        Inl e \<Rightarrow> Inl e
      | Inr vs \<Rightarrow> map_sum id BoolArr (put a idx (map bool_of_fval vs)))"

section \<open>Helpers of the base class\<close>

text \<open>
  Modelled from the spec: \<open>_parse_mode\<close> of the base class, which is not among the
  sources. It validates its argument against the allowed enumeration and fails with
  \<open>InvalidArgument\<close> otherwise.
\<close>

definition parse_mode :: "string \<Rightarrow> string list \<Rightarrow> error + string" where
  "parse_mode mode allowed =
     (if mode \<in> set allowed then Inr mode else Inl InvalidArgument)"

text \<open>
  Modelled from the spec: \<open>_parse_indices\<close> of the base class, which is not among the
  sources. It resolves the nodes to a concrete index set and fails with
  \<open>InvalidArgument\<close> if any index is out of range. Node indices are natural numbers
  throughout.
\<close>

definition parse_indices :: "algorithm \<Rightarrow> nat list \<Rightarrow> error + nat list" where
  "parse_indices s pores =
     (if list_all (\<lambda>p. p < Np s) pores then Inr pores else Inl InvalidArgument)"

text \<open>
  Modelled from the spec: \<open>self[key] = scalar\<close> of the base class, which is not among
  the sources. The array under the key is (re)initialised to the scalar over every node.
\<close>

definition setitem_bool :: "algorithm \<Rightarrow> string \<Rightarrow> bool \<Rightarrow> algorithm" where
  "setitem_bool s key b = s\<lparr>props := (props s)(key \<mapsto> BoolArr (replicate (Np s) b))\<rparr>"

definition setitem_float :: "algorithm \<Rightarrow> string \<Rightarrow> fval \<Rightarrow> algorithm" where
  "setitem_float s key v = s\<lparr>props := (props s)(key \<mapsto> FloatArr (replicate (Np s) v))\<rparr>"

text \<open>\<open>key in self.keys()\<close>\<close>

definition has_key :: "algorithm \<Rightarrow> string \<Rightarrow> bool" where
  "has_key s key = (props s key \<noteq> None)"

section \<open>The boundary condition store\<close>

text \<open>
  \<open>self[key][pores] = b\<close>: the array is looked up (KeyError when the key is missing) and
  updated in place. The result is the exception raised, if any, and the object afterwards.
\<close>

definition assign_bool :: "algorithm \<Rightarrow> string \<Rightarrow> nat list \<Rightarrow> bool \<Rightarrow> error option \<times> algorithm" where
  "assign_bool s key pores b =
     (case props s key of
        None \<Rightarrow> (Some KeyError, s)
      | Some arr \<Rightarrow>
          (case put_bool arr pores b of
             Inl e \<Rightarrow> (Some e, s)
           | Inr arr' \<Rightarrow> (None, s\<lparr>props := (props s)(key \<mapsto> arr')\<rparr>)))"

definition assign_floats :: "algorithm \<Rightarrow> string \<Rightarrow> nat list \<Rightarrow> bcvalues \<Rightarrow> error option \<times> algorithm" where
  "assign_floats s key pores values =
     (case props s key of
        None \<Rightarrow> (Some KeyError, s)
      | Some arr \<Rightarrow>
          (case put_floats arr pores values of
             Inl e \<Rightarrow> (Some e, s)
           | Inr arr' \<Rightarrow> (None, s\<lparr>props := (props s)(key \<mapsto> arr')\<rparr>)))"

text \<open>
  One of the two blocks of \<open>remove_BC\<close>: under the guard that the label key is stored, the
  labels at the pores become False and the values NaN.
\<close>

definition clear_kind :: "algorithm \<Rightarrow> string \<Rightarrow> nat list \<Rightarrow> error option \<times> algorithm" where
  "clear_kind s kind pores =
     (if has_key s (''pore.'' @ kind) then
        (case assign_bool s (''pore.'' @ kind) pores False of
           (Some e, s1) \<Rightarrow> (Some e, s1)
         | (None, s1) \<Rightarrow> assign_floats s1 (''pore.'' @ kind @ ''_value'') pores (Scalar NaN))
      else (None, s))"

definition remove_BC :: "algorithm \<Rightarrow> nat list option \<Rightarrow> error option \<times> algorithm" where
  "remove_BC s pores =
     (let ps = (case pores of None \<Rightarrow> [0..<Np s] | Some ps \<Rightarrow> ps) in
      case clear_kind s ''dirichlet'' ps of
        (Some e, s1) \<Rightarrow> (Some e, s1)
      | (None, s1) \<Rightarrow> clear_kind s1 ''neumann'' ps)"

text \<open>Lines 102 to 111 of the source: label the pores, then store the values.\<close>

definition apply_BC :: "algorithm \<Rightarrow> nat list \<Rightarrow> string \<Rightarrow> bcvalues \<Rightarrow> string \<Rightarrow> error option \<times> algorithm" where
  "apply_BC s pores bctype values mode =
     (let s1 = (if \<not> has_key s (''pore.'' @ bctype) \<or> mode = ''overwrite''
                then setitem_bool s (''pore.'' @ bctype) False else s) in
      case assign_bool s1 (''pore.'' @ bctype) pores True of
        (Some e, s2) \<Rightarrow> (Some e, s2)
      | (None, s2) \<Rightarrow>
          (let s3 = (if \<not> has_key s2 (''pore.'' @ bctype @ ''_value'') \<or> mode = ''overwrite''
                     then setitem_float s2 (''pore.'' @ bctype @ ''_value'') NaN else s2) in
           assign_floats s3 (''pore.'' @ bctype @ ''_value'') pores values))"

definition set_boundary_conditions ::
  "algorithm \<Rightarrow> nat list \<Rightarrow> string \<Rightarrow> bcvalues \<Rightarrow> string \<Rightarrow> error option \<times> algorithm" where
  "set_boundary_conditions s pores bctype bcvalues mode =
     (case parse_mode bctype [''dirichlet'', ''neumann'', ''neumann_group''] of
        Inl e \<Rightarrow> (Some e, s)
      | Inr bctype' \<Rightarrow>
     (case parse_mode mode [''merge'', ''overwrite'', ''remove''] of
        Inl e \<Rightarrow> (Some e, s)
      | Inr mode' \<Rightarrow>
     (case parse_indices s pores of
        Inl e \<Rightarrow> (Some e, s)
      | Inr pores' \<Rightarrow>
          if mode' = ''remove'' then remove_BC s (Some pores')
          else if size_of bcvalues > 1 \<and> size_of bcvalues \<noteq> length pores'
          then (Some InvalidArgument, s)
          else apply_BC s pores' bctype' bcvalues mode')))"

section \<open>Sequences of calls on the store\<close>

text \<open>
  A caller may catch the exception of a failed call and go on, so a sequence of calls
  continues from the object as the failed call left it.
\<close>

datatype call = SetBC "nat list" string bcvalues string | RemoveBC "nat list option"

fun do_call :: "algorithm \<Rightarrow> call \<Rightarrow> algorithm" where
  "do_call s (SetBC pores bctype values mode) =
     snd (set_boundary_conditions s pores bctype values mode)"
| "do_call s (RemoveBC pores) = snd (remove_BC s pores)"

text \<open>The label array and the value array of each kind are stored together or not at all.\<close>

definition paired :: "algorithm \<Rightarrow> bool" where
  "paired s =
     (has_key s ''pore.dirichlet'' = has_key s ''pore.dirichlet_value'' \<and>
      has_key s ''pore.neumann'' = has_key s ''pore.neumann_value'')"

text \<open>
  The pores carry no condition of the kind: its two arrays are absent, or they are a
  boolean and a float array over all nodes that hold False and NaN at the pores.
\<close>

definition no_BC_at :: "algorithm \<Rightarrow> string \<Rightarrow> nat list \<Rightarrow> bool" where
  "no_BC_at s kind pores =
     (case (props s (''pore.'' @ kind), props s (''pore.'' @ kind @ ''_value'')) of
        (None, None) \<Rightarrow> True
      | (Some (BoolArr l), Some (FloatArr v)) \<Rightarrow>
          length l = Np s \<and> length v = Np s \<and>
          list_all (\<lambda>p. p < Np s \<and> \<not> l ! p \<and> v ! p = NaN) pores
      | _ \<Rightarrow> False)"

section \<open>The right-hand side\<close>

text \<open>
  A numpy boolean mask over an array of length \<open>n\<close>: a boolean array of that very length.
  A mask of another length, and a float array used as an index, raise IndexError.
\<close>

fun as_mask :: "parray \<Rightarrow> nat \<Rightarrow> error + bool list" where
  "as_mask (BoolArr m) n = (if length m = n then Inr m else Inl IndexError)"
| "as_mask (FloatArr v) n = Inl IndexError"

text \<open>The elements of a stored array as floats, and the unary minus of numpy (not defined on booleans).\<close>

fun as_floats :: "parray \<Rightarrow> fval list" where
  "as_floats (FloatArr v) = v"
| "as_floats (BoolArr l) = map fval_of_bool l"

fun negative :: "parray \<Rightarrow> error + parray" where
  "negative (FloatArr v) = Inr (FloatArr (map fneg v))"
| "negative (BoolArr l) = Inl TypeError"

text \<open>
  One block of \<open>build_b\<close>: \<open>ind = self[lk]; b[ind] = self[vk][ind]\<close>, with the values
  negated for the Neumann block. The right-hand side is evaluated first.
\<close>

definition masked_store :: "algorithm \<Rightarrow> fval list \<Rightarrow> string \<Rightarrow> string \<Rightarrow> bool \<Rightarrow> error + fval list" where
  "masked_store s b lk vk neg =
     (case props s lk of
        None \<Rightarrow> Inl KeyError
      | Some ind \<Rightarrow>
     (case props s vk of
        None \<Rightarrow> Inl KeyError
      | Some vals \<Rightarrow>
     (case as_mask ind (length (as_floats vals)) of
        Inl e \<Rightarrow> Inl e
      | Inr m1 \<Rightarrow>
     (case (if neg then negative vals else Inr vals) of
        Inl e \<Rightarrow> Inl e
      | Inr vals' \<Rightarrow>
     (case as_mask ind (length b) of
        Inl e \<Rightarrow> Inl e
      | Inr m \<Rightarrow>
          Inr (map (\<lambda>(k, old, new). if k then new else old)
                 (zip m (zip b (as_floats vals')))))))))"

text \<open>\<open>build_b\<close>; the vector is also kept as \<open>self.b\<close>, the model returns it.\<close>

definition build_b :: "algorithm \<Rightarrow> error + fval list" where
  "build_b s =
     (let b = replicate (Np s) (Val 0) in
      case (if has_key s ''pore.dirichlet''
            then masked_store s b ''pore.dirichlet'' ''pore.dirichlet_value'' False
            else Inr b) of
        Inl e \<Rightarrow> Inl e
      | Inr b1 \<Rightarrow>
          if has_key s ''pore.neumann''
          then masked_store s b1 ''pore.neumann'' ''pore.neumann_value'' True
          else Inr b1)"

text \<open>
  The store is well formed for a kind when its two arrays are absent, or are a boolean
  and a float array over all nodes; every state that \<open>set_boundary_conditions\<close> and
  \<open>remove_BC\<close> build from a fresh object is.
\<close>

definition wf_kind :: "algorithm \<Rightarrow> string \<Rightarrow> bool" where
  "wf_kind s kind =
     (case (props s (''pore.'' @ kind), props s (''pore.'' @ kind @ ''_value'')) of
        (None, None) \<Rightarrow> True
      | (Some (BoolArr l), Some (FloatArr v)) \<Rightarrow> length l = Np s \<and> length v = Np s
      | _ \<Rightarrow> False)"

text \<open>The label and the prescribed value of a node, read from the store.\<close>

definition label_at :: "algorithm \<Rightarrow> string \<Rightarrow> nat \<Rightarrow> bool" where
  "label_at s kind i =
     (case props s (''pore.'' @ kind) of
        Some (BoolArr l) \<Rightarrow> i < length l \<and> l ! i
      | _ \<Rightarrow> False)"

definition value_at :: "algorithm \<Rightarrow> string \<Rightarrow> nat \<Rightarrow> fval" where
  "value_at s kind i =
     (case props s (''pore.'' @ kind @ ''_value'') of
        Some (FloatArr v) \<Rightarrow> if i < length v then v ! i else NaN
      | _ \<Rightarrow> NaN)"

section \<open>The system matrix\<close>

text \<open>
  A sparse matrix in coordinate format: three parallel arrays, and the number of rows
  (the matrices here are square). Repeated coordinates stand for the sum of their values.
\<close>

record coo =
  row :: "nat list"
  col :: "nat list"
  data :: "fval list"
  shape :: nat

definition entries :: "coo \<Rightarrow> (nat \<times> nat \<times> fval) list" where
  "entries A = zip (row A) (zip (col A) (data A))"

text \<open>The value of the matrix at a coordinate, the sum of a row, and of its off-diagonal part.\<close>

definition mat_entry :: "coo \<Rightarrow> nat \<Rightarrow> nat \<Rightarrow> fval" where
  "mat_entry A i j = fsum (map (\<lambda>(r, c, v). v) (filter (\<lambda>(r, c, v). r = i \<and> c = j) (entries A)))"

definition row_sum :: "coo \<Rightarrow> nat \<Rightarrow> fval" where
  "row_sum A i = fsum (map (\<lambda>(r, c, v). v) (filter (\<lambda>(r, c, v). r = i) (entries A)))"

definition row_offdiag_sum :: "coo \<Rightarrow> nat \<Rightarrow> fval" where
  "row_offdiag_sum A i =
     fsum (map (\<lambda>(r, c, v). v) (filter (\<lambda>(r, c, v). r = i \<and> c \<noteq> i) (entries A)))"

text \<open>
  Modelled from the spec: \<open>create_adjacency_matrix\<close> of the network, which is not among
  the sources. It builds a symmetric weighted adjacency structure with one entry per
  edge and direction, holding the given weight of the edge.
\<close>

definition create_adjacency_matrix :: "nat \<Rightarrow> (nat \<times> nat) list \<Rightarrow> fval list \<Rightarrow> coo" where
  "create_adjacency_matrix n conns weights =
     \<lparr>row = map fst conns @ map snd conns,
      col = map snd conns @ map fst conns,
      data = weights @ weights,
      shape = n\<rparr>"

text \<open>
  \<open>scipy.sparse.csgraph.laplacian\<close> (a library routine) on a coordinate matrix: \<open>L = D - A\<close>,
  where \<open>D\<close> is the diagonal matrix of the column sums of \<open>A\<close> without its diagonal. The
  routine negates the data, drops the entries on the diagonal, and appends one diagonal
  entry per node.
\<close>

definition column_sum :: "coo \<Rightarrow> nat \<Rightarrow> fval" where
  "column_sum A j = fsum (map (\<lambda>(r, c, v). v) (filter (\<lambda>(r, c, v). c = j) (entries A)))"

definition laplacian :: "coo \<Rightarrow> coo" where
  "laplacian m =
     (let w = map (\<lambda>j. fsub (column_sum m j) (mat_entry m j j)) [0..<shape m];
          keep = filter (\<lambda>(r, c, v). r \<noteq> c) (entries m)
      in \<lparr>row = map (\<lambda>(r, c, v). r) keep @ [0..<shape m],
          col = map (\<lambda>(r, c, v). c) keep @ [0..<shape m],
          data = map (\<lambda>(r, c, v). fneg v) keep @ w,
          shape = shape m\<rparr>)"

text \<open>
  Modelled from the spec: \<open>toindices\<close> of the base class, which is not among the sources.
  It gives the indices of the nodes whose label is set, in ascending order.
\<close>

definition toindices :: "bool list \<Rightarrow> nat list" where
  "toindices msk = filter (\<lambda>i. msk ! i) [0..<length msk]"

text \<open>numpy's cast of a stored array to booleans.\<close>

fun as_bools :: "parray \<Rightarrow> bool list" where
  "as_bools (BoolArr l) = l"
| "as_bools (FloatArr v) = map bool_of_fval v"

text \<open>numpy's \<open>a[msk]\<close> for a boolean mask computed from an array of the same length.\<close>

definition select :: "bool list \<Rightarrow> 'a list \<Rightarrow> 'a list" where
  "select msk a = map snd (filter fst (zip msk a))"

text \<open>The first lines of \<open>build_A\<close>: the Laplacian of the adjacency matrix weighted with \<open>-g\<close>.\<close>

definition build_laplacian :: "algorithm \<Rightarrow> (nat \<times> nat) list \<Rightarrow> fval list \<Rightarrow> coo" where
  "build_laplacian s conns g = laplacian (create_adjacency_matrix (Np s) conns (map fneg g))"

text \<open>
  \<open>build_A\<close>, for the connections \<open>conns\<close> of the network and the conductances \<open>g\<close> of the
  phase. The matrix is also kept as \<open>self.A\<close>, the model returns it.
\<close>

definition build_A :: "algorithm \<Rightarrow> (nat \<times> nat) list \<Rightarrow> fval list \<Rightarrow> coo" where
  "build_A s conns g =
     (let A = build_laplacian s conns g in
      case props s ''pore.dirichlet'' of
        None \<Rightarrow> A
      | Some labels \<Rightarrow>
          (let P_bc = toindices (as_bools labels);
               indr = map (\<lambda>r. r \<notin> set P_bc) (row A)
           in A\<lparr>row := select indr (row A) @ P_bc,
                col := select indr (col A) @ P_bc,
                data := select indr (data A) @ replicate (length P_bc) (Val 1)\<rparr>))"

text \<open>
  The specification's view of the graph: the edge \<open>e\<close> joins the nodes \<open>i\<close> and \<open>j\<close>, and
  the sum of the conductances of the edges joining them.
\<close>

definition joins :: "nat \<times> nat \<Rightarrow> nat \<Rightarrow> nat \<Rightarrow> bool" where
  "joins e i j = (e = (i, j) \<or> e = (j, i))"

definition conductance_between :: "(nat \<times> nat) list \<Rightarrow> fval list \<Rightarrow> nat \<Rightarrow> nat \<Rightarrow> fval" where
  "conductance_between conns g i j =
     fsum (map snd (filter (\<lambda>(e, c). joins e i j) (zip conns g)))"

section \<open>The rate into a set of pores\<close>

text \<open>numpy's \<open>a[idx]\<close> for an index array: IndexError when an index is out of range.\<close>

definition take_at :: "'a list \<Rightarrow> nat list \<Rightarrow> error + 'a list" where
  "take_at a idx =
     (if list_all (\<lambda>i. i < length a) idx then Inr (map (\<lambda>i. a ! i) idx) else Inl IndexError)"

fun index_array :: "parray \<Rightarrow> nat list \<Rightarrow> error + parray" where
  "index_array (FloatArr a) idx = map_sum id FloatArr (take_at a idx)"
| "index_array (BoolArr a) idx = map_sum id BoolArr (take_at a idx)"

text \<open>numpy's \<open>X2 - X1\<close> on arrays of one length: not defined on boolean arrays.\<close>

fun subtract :: "parray \<Rightarrow> parray \<Rightarrow> error + fval list" where
  "subtract (BoolArr a) (BoolArr b) = Inl TypeError"
| "subtract x2 x1 = Inr (map (\<lambda>(a, b). fsub a b) (zip (as_floats x2) (as_floats x1)))"

text \<open>
  Modelled from the spec: \<open>find_neighbor_throats\<close> of the network in the mode
  \<open>not_intersection\<close>, which is not among the sources. It finds all edges with exactly one
  endpoint inside the group and the other strictly outside.
\<close>

definition find_neighbor_throats :: "(nat \<times> nat) list \<Rightarrow> nat list \<Rightarrow> nat list" where
  "find_neighbor_throats conns P =
     filter (\<lambda>t. (fst (conns ! t) \<in> set P) \<noteq> (snd (conns ! t) \<in> set P)) [0..<length conns]"

text \<open>
  Modelled from the spec: \<open>find_connected_pores\<close> of the network, which is not among the
  sources. It gives the pair of node indices of each of the edges.
\<close>

definition find_connected_pores :: "(nat \<times> nat) list \<Rightarrow> nat list \<Rightarrow> (nat \<times> nat) list" where
  "find_connected_pores conns throats = map (\<lambda>t. conns ! t) throats"

text \<open>
  The body of the loop of \<open>rate\<close> for one group \<open>P\<close> with its boundary edges \<open>throats\<close>:
  the endpoints are swapped where the first one is not in the group, so that \<open>pores1\<close>
  holds the inner and \<open>pores2\<close> the outer nodes.
\<close>

definition group_rate ::
  "(nat \<times> nat) list \<Rightarrow> fval list \<Rightarrow> parray \<Rightarrow> nat list \<Rightarrow> nat list \<Rightarrow> error + fval" where
  "group_rate conns conductance quantity_arr throats P =
     (let p1 = map fst (find_connected_pores conns throats);
          p2 = map snd (find_connected_pores conns throats);
          outside = map (\<lambda>p. p \<notin> set P) p1;
          pores1 = map (\<lambda>(out, a, b). if out then b else a) (zip outside (zip p1 p2));
          pores2 = map (\<lambda>(out, a, b). if out then a else b) (zip outside (zip p1 p2))
      in case index_array quantity_arr pores1 of
           Inl e \<Rightarrow> Inl e
         | Inr X1 \<Rightarrow>
        (case index_array quantity_arr pores2 of
           Inl e \<Rightarrow> Inl e
         | Inr X2 \<Rightarrow>
        (case take_at conductance throats of
           Inl e \<Rightarrow> Inl e
         | Inr g \<Rightarrow>
        (case subtract X2 X1 of
           Inl e \<Rightarrow> Inl e
         | Inr d \<Rightarrow> Inr (fsum (map (\<lambda>(c, x). fmul c x) (zip g d)))))))"

text \<open>The results of the iterations of a loop, up to the first exception.\<close>

fun collect :: "(error + 'a) list \<Rightarrow> error + 'a list" where
  "collect [] = Inr []"
| "collect (Inl e # rs) = Inl e"
| "collect (Inr v # rs) = (case collect rs of Inl e \<Rightarrow> Inl e | Inr vs \<Rightarrow> Inr (v # vs))"

text \<open>
  \<open>rate\<close>, for the connections \<open>conns\<close> of the network and the conductances of the phase.
  The quantity is looked up first (a missing key is KeyError). The indices are resolved
  by \<open>_parse_indices\<close>; the specification lets the operation fail with \<open>InvalidArgument\<close>
  on an empty node set as well, which is modelled with the resolution. In the mode
  \<open>single\<close> every given pore is a group of its own. Any other mode leaves the number of
  groups unbound.
\<close>

definition rate ::
  "algorithm \<Rightarrow> (nat \<times> nat) list \<Rightarrow> fval list \<Rightarrow> nat list \<Rightarrow> string \<Rightarrow> error + fval list" where
  "rate s conns conductance pores mode =
     (case (case quantity s of None \<Rightarrow> None | Some key \<Rightarrow> props s key) of
        None \<Rightarrow> Inl KeyError
      | Some q \<Rightarrow>
     (case parse_indices s pores of
        Inl e \<Rightarrow> Inl e
      | Inr P \<Rightarrow>
          if P = [] then Inl InvalidArgument
          else if mode = ''group'' then
            collect [group_rate conns conductance q (find_neighbor_throats conns P) P]
          else if mode = ''single'' then
            collect (map (\<lambda>p. group_rate conns conductance q (find_neighbor_throats conns [p]) [p]) P)
          else Inl UnboundLocalError))"

text \<open>
  The specification's account of the net rate: an edge with exactly one endpoint in the
  group contributes its conductance times the quantity at the outer minus the quantity at
  the inner endpoint; any other edge contributes nothing.
\<close>

definition boundary_flux :: "fval list \<Rightarrow> nat list \<Rightarrow> nat \<times> nat \<Rightarrow> fval \<Rightarrow> fval" where
  "boundary_flux q P e c =
     (if fst e \<in> set P \<and> snd e \<notin> set P then fmul c (fsub (q ! snd e) (q ! fst e))
      else if snd e \<in> set P \<and> fst e \<notin> set P then fmul c (fsub (q ! fst e) (q ! snd e))
      else Val 0)"

text \<open>The network is valid over \<open>n\<close> nodes when every edge connects two of them.\<close>

definition valid_conns :: "nat \<Rightarrow> (nat \<times> nat) list \<Rightarrow> bool" where
  "valid_conns n conns = list_all (\<lambda>e. fst e < n \<and> snd e < n) conns"

text \<open>The quantity field has been solved: the configured key holds a float array over all nodes.\<close>

definition solved :: "algorithm \<Rightarrow> fval list \<Rightarrow> bool" where
  "solved s q =
     (case quantity s of
        None \<Rightarrow> False
      | Some key \<Rightarrow> props s key = Some (FloatArr q) \<and> length q = Np s)"

section \<open>The effective property\<close>

text \<open>
  Division of floats; a division by zero gives an infinity or NaN in IEEE arithmetic and
  is NaN here, the model having no infinities.
\<close>

fun fdiv :: "fval \<Rightarrow> fval \<Rightarrow> fval" where
  "fdiv (Val a) (Val b) = (if b = 0 then NaN else Val (a / b))"
| "fdiv _ _ = NaN"

text \<open>numpy's \<open>==\<close> on floats: NaN equals nothing.\<close>

fun feq :: "fval \<Rightarrow> fval \<Rightarrow> bool" where
  "feq (Val a) (Val b) = (a = b)"
| "feq _ _ = False"

fun fmax :: "fval \<Rightarrow> fval \<Rightarrow> fval" where
  "fmax (Val a) (Val b) = Val (max a b)"
| "fmax _ _ = NaN"

fun fmin :: "fval \<Rightarrow> fval \<Rightarrow> fval" where
  "fmin (Val a) (Val b) = Val (min a b)"
| "fmin _ _ = NaN"

text \<open>\<open>sp.amax\<close> and \<open>sp.amin\<close>: ValueError on an empty array, NaN when a NaN is present.\<close>

fun amax :: "fval list \<Rightarrow> error + fval" where
  "amax [] = Inl ValueError"
| "amax (x # xs) = Inr (foldl fmax x xs)"

fun amin :: "fval list \<Rightarrow> error + fval" where
  "amin [] = Inl ValueError"
| "amin (x # xs) = Inr (foldl fmin x xs)"

text \<open>
  \<open>sp.unique\<close>: the distinct numbers in ascending order; NaNs sort last and, being
  unequal to one another, are all kept.
\<close>

definition unique :: "fval list \<Rightarrow> fval list" where
  "unique xs =
     map Val (sort (remdups (concat (map (\<lambda>v. case v of Val r \<Rightarrow> [r] | NaN \<Rightarrow> []) xs)))) @
     filter (\<lambda>v. v = NaN) xs"

text \<open>\<open>sp.where(a == m)[0]\<close>\<close>

definition where_eq :: "fval list \<Rightarrow> fval \<Rightarrow> nat list" where
  "where_eq a m = filter (\<lambda>i. feq (a ! i) m) [0..<length a]"

text \<open>
  \<open>_calc_eff_prop\<close>. The queries \<open>domain_area\<close> and \<open>domain_length\<close> of the network are
  parameters. \<open>self.pores(label)\<close> of the base class, which is not among the sources, is
  modelled from the spec as the nodes that carry the label (KeyError without the label
  array). A boolean value array goes through numpy's casts and ends in the TypeError of
  the subtraction of two booleans.
\<close>

definition calc_eff_prop ::
  "algorithm \<Rightarrow> (nat \<times> nat) list \<Rightarrow> fval list \<Rightarrow> (nat list \<Rightarrow> fval) \<Rightarrow>
     (nat list \<Rightarrow> nat list \<Rightarrow> fval) \<Rightarrow> error + fval" where
  "calc_eff_prop s conns conductance domain_area domain_length =
     (if (case quantity s of None \<Rightarrow> True | Some key \<Rightarrow> \<not> has_key s key)
      then Inl PreconditionViolation
      else
     (case props s ''pore.dirichlet'' of
        None \<Rightarrow> Inl KeyError
      | Some labels \<Rightarrow>
     (case props s ''pore.dirichlet_value'' of
        None \<Rightarrow> Inl KeyError
      | Some values \<Rightarrow>
     (case take_at (as_floats values) (toindices (as_bools labels)) of
        Inl e \<Rightarrow> Inl e
      | Inr at_Ps \<Rightarrow>
     (let BCs = unique at_Ps in
      case amax BCs of
        Inl e \<Rightarrow> Inl e
      | Inr hi \<Rightarrow>
     (case amin BCs of
        Inl e \<Rightarrow> Inl e
      | Inr lo \<Rightarrow>
     (let inlets = where_eq (as_floats values) hi;
          outlets = where_eq (as_floats values) lo;
          A = domain_area inlets;
          L = domain_length inlets outlets
      in case rate s conns conductance inlets ''group'' of
           Inl e \<Rightarrow> Inl e
         | Inr flow \<Rightarrow>
             if length BCs < 2 then Inl IndexError
             else (case values of
                     BoolArr _ \<Rightarrow> Inl TypeError
                   | FloatArr _ \<Rightarrow>
                       Inr (fdiv (fdiv (fmul (fsum flow) L) A) (fsub (BCs ! 0) (BCs ! 1)))))))))))"

section \<open>The shape of the store\<close>

text \<open>
  A step keeps the shape of the store: the same keys, each with an array of the same
  element type and length.
\<close>

definition same_shape :: "algorithm \<Rightarrow> algorithm \<Rightarrow> bool" where
  "same_shape s s' =
     (Np s' = Np s \<and>
      (\<forall>k. case props s k of
             None \<Rightarrow> props s' k = None
           | Some (BoolArr l) \<Rightarrow> (\<exists>l'. props s' k = Some (BoolArr l') \<and> length l' = length l)
           | Some (FloatArr v) \<Rightarrow> (\<exists>v'. props s' k = Some (FloatArr v') \<and> length v' = length v)))"

section \<open>Basic facts\<close>

lemma fadd_zero: "fadd (Val 0) x = x" "fadd x (Val 0) = x"
  by (cases x; simp)+

lemma fadd_assoc: "fadd (fadd a b) c = fadd a (fadd b c)"
  by (cases a; cases b; cases c) simp_all

lemma fsum_Nil: "fsum [] = Val 0"
  by (simp add: fsum_def)

lemma fsum_Cons: "fsum (x # xs) = fadd x (fsum xs)"
  by (simp add: fsum_def)

lemma fsum_append: "fsum (xs @ ys) = fadd (fsum xs) (fsum ys)"
  by (induction xs) (simp_all add: fadd_assoc fadd_zero fsum_Nil fsum_Cons)

lemma upt_2: "[0..<2] = [0, Suc 0]"
  by (simp add: upt_rec numeral_2_eq_2)

lemma zip3_map: "zip (map f xs) (zip (map g xs) (map h xs)) = map (\<lambda>x. (f x, g x, h x)) xs"
  by (induction xs) simp_all

lemma toindices_set: "set (toindices l) = {i. i < length l \<and> l ! i}"
  by (auto simp: toindices_def)

lemma toindices_distinct: "distinct (toindices l)"
  by (simp add: toindices_def)

lemmas fsum_simps = fadd_zero fsum_Nil fsum_Cons fsum_append

section \<open>Indexed assignment: lemmas\<close>

lemma length_fold_upd:
  "length (fold (\<lambda>(i, v) b. b[i := v]) ivs a) = length a"
  by (induction ivs arbitrary: a) auto

lemma nth_fold_upd_other:
  "j \<notin> fst ` set ivs \<Longrightarrow> fold (\<lambda>(i, v) b. b[i := v]) ivs a ! j = a ! j"
  by (induction ivs arbitrary: a) auto

lemma nth_fold_upd_const:
  "j \<in> fst ` set ivs \<Longrightarrow> j < length a \<Longrightarrow> \<forall>iv \<in> set ivs. snd iv = x \<Longrightarrow>
   fold (\<lambda>(i, v) b. b[i := v]) ivs a ! j = x"
proof (induction ivs arbitrary: a)
  case Nil
  then show ?case by simp
next
  case (Cons iv ivs)
  obtain i v where iv: "iv = (i, v)" by (cases iv)
  show ?case
  proof (cases "j \<in> fst ` set ivs")
    case True
    with Cons.prems Cons.IH [of "a[i := v]"] show ?thesis by (simp add: iv)
  next
    case False
    with Cons.prems have "j = i" "v = x" by (auto simp: iv)
    with False Cons.prems show ?thesis by (simp add: iv nth_fold_upd_other)
  qed
qed

lemma fst_set_zip_replicate:
  "fst ` set (zip idx (replicate (length idx) x)) = set idx"
  by (induction idx) auto

lemma fold_upd_restore:
  assumes "list_all (\<lambda>p. p < length a \<and> a ! p = x) idx" and "length vs = length idx"
  shows "fold (\<lambda>(i, v) b. b[i := v]) (zip idx (replicate (length idx) x))
           (fold (\<lambda>(i, v) b. b[i := v]) (zip idx vs) a) = a"
proof (rule nth_equalityI)
  show "length (fold (\<lambda>(i, v) b. b[i := v]) (zip idx (replicate (length idx) x))
           (fold (\<lambda>(i, v) b. b[i := v]) (zip idx vs) a)) = length a" by (simp add: length_fold_upd)
next
  fix j
  assume "j < length (fold (\<lambda>(i, v) b. b[i := v]) (zip idx (replicate (length idx) x))
           (fold (\<lambda>(i, v) b. b[i := v]) (zip idx vs) a))"
  then have j: "j < length a" by (simp add: length_fold_upd)
  show "fold (\<lambda>(i, v) b. b[i := v]) (zip idx (replicate (length idx) x))
           (fold (\<lambda>(i, v) b. b[i := v]) (zip idx vs) a) ! j = a ! j"
  proof (cases "j \<in> set idx")
    case True
    then have "a ! j = x" using assms(1) by (simp add: list_all_iff)
    moreover have "fold (\<lambda>(i, v) b. b[i := v]) (zip idx (replicate (length idx) x))
           (fold (\<lambda>(i, v) b. b[i := v]) (zip idx vs) a) ! j = x"
      using True j
      by (intro nth_fold_upd_const)
        (auto simp: length_fold_upd fst_set_zip_replicate dest: set_zip_rightD)
    ultimately show ?thesis by simp
  next
    case False
    then have "j \<notin> fst ` set (zip idx vs)" using assms(2) by (auto dest: set_zip_leftD)
    with False show ?thesis by (simp add: nth_fold_upd_other fst_set_zip_replicate)
  qed
qed

lemma fold_upd_same:
  assumes "list_all (\<lambda>p. p < length a \<and> a ! p = x) idx"
  shows "fold (\<lambda>(i, v) b. b[i := v]) (zip idx (replicate (length idx) x)) a = a"
  using assms by (induction idx arbitrary: a) (auto simp: list_all_iff)

section \<open>Validation of the arguments\<close>

lemma parse_mode_iff:
  "parse_mode m allowed = (if m \<in> set allowed then Inr m else Inl InvalidArgument)"
  by (simp add: parse_mode_def)

text \<open>
  Claim C4, as the code has it: \<open>set_boundary_conditions\<close> fails with \<open>InvalidArgument\<close>,
  leaving the object as it was, whenever the kind is not one of \<open>dirichlet\<close>,
  \<open>neumann\<close>, \<open>neumann_group\<close>, and whenever the mode is not one of \<open>merge\<close>,
  \<open>overwrite\<close>, \<open>remove\<close>.
\<close>

theorem set_boundary_conditions_rejects:
  assumes "bctype \<notin> {''dirichlet'', ''neumann'', ''neumann_group''}
           \<or> mode \<notin> {''merge'', ''overwrite'', ''remove''}"
  shows "set_boundary_conditions s pores bctype bcvalues mode = (Some InvalidArgument, s)"
  using assms by (auto simp: set_boundary_conditions_def parse_mode_iff)

theorem set_boundary_conditions_rejects_witness:
  "set_boundary_conditions \<lparr>Np = 2, props = Map.empty, quantity = None\<rparr> [0] ''robin''
      (Scalar (Val 1)) ''merge''
     = (Some InvalidArgument, \<lparr>Np = 2, props = Map.empty, quantity = None\<rparr>)
   \<and> set_boundary_conditions \<lparr>Np = 2, props = Map.empty, quantity = None\<rparr> [0] ''dirichlet''
      (Scalar (Val 1)) ''replace''
     = (Some InvalidArgument, \<lparr>Np = 2, props = Map.empty, quantity = None\<rparr>)"
  using set_boundary_conditions_rejects [of "''robin''" "''merge''"]
    set_boundary_conditions_rejects [of "''dirichlet''" "''replace''"]
  by simp

text \<open>
  The kind \<open>neumann_group\<close> is none of \<open>dirichlet\<close> and \<open>neumann\<close>, and the call
  is accepted: it returns normally and labels the pore under \<open>pore.neumann_group\<close>.
\<close>

theorem neumann_group_accepted:
  "''neumann_group'' \<notin> {''dirichlet'', ''neumann''}
   \<and> fst (set_boundary_conditions \<lparr>Np = 2, props = Map.empty, quantity = None\<rparr> [0]
        ''neumann_group'' (Scalar (Val 1)) ''merge'') = None
   \<and> props (snd (set_boundary_conditions \<lparr>Np = 2, props = Map.empty, quantity = None\<rparr> [0]
        ''neumann_group'' (Scalar (Val 1)) ''merge'')) ''pore.neumann_group''
       = Some (BoolArr [True, False])"
  by (simp add: set_boundary_conditions_def parse_mode_def parse_indices_def apply_BC_def
      has_key_def setitem_bool_def setitem_float_def assign_bool_def assign_floats_def put_def
      numeral_2_eq_2)

text \<open>
  Claim C8 at an empty value array for one pore: the size check lets size 0 pass, the label
  and value arrays are created and the pore is labelled, and only then the assignment of
  the values raises. The failed call has changed the object.
\<close>

theorem empty_values_mutate:
  "set_boundary_conditions \<lparr>Np = 1, props = Map.empty, quantity = None\<rparr> [0]
        ''dirichlet'' (Values []) ''merge''
   = (Some ValueError, \<lparr>Np = 1, props = [''pore.dirichlet'' \<mapsto> BoolArr [True],
        ''pore.dirichlet_value'' \<mapsto> FloatArr [NaN]], quantity = None\<rparr>)"
  by (simp add: set_boundary_conditions_def parse_mode_def parse_indices_def apply_BC_def
      has_key_def setitem_bool_def setitem_float_def assign_bool_def assign_floats_def put_def)

text \<open>
  What the size check does cover: more than one value, and not one per pore, is rejected
  before anything is written.
\<close>

lemma size_mismatch:
  assumes "size_of bcvalues > 1" "size_of bcvalues \<noteq> length pores" "mode \<in> {''merge'', ''overwrite''}"
  shows "set_boundary_conditions s pores bctype bcvalues mode = (Some InvalidArgument, s)"
  using assms by (auto simp: set_boundary_conditions_def parse_mode_iff parse_indices_def 
     split: sum.splits)

section \<open>The keys of the store\<close>

lemma assign_bool_keys:
  "assign_bool s k ps b = (r, s') \<Longrightarrow> has_key s' k' = has_key s k'"
  by (auto simp: assign_bool_def has_key_def split: option.splits sum.splits if_splits)

lemma assign_floats_keys:
  "assign_floats s k ps v = (r, s') \<Longrightarrow> has_key s' k' = has_key s k'"
  by (auto simp: assign_floats_def has_key_def split: option.splits sum.splits if_splits)

lemma clear_kind_keys:
  assumes "clear_kind s kind ps = (r, s')"
  shows "has_key s' k' = has_key s k'"
proof (cases "has_key s (''pore.'' @ kind)")
  case False
  with assms show ?thesis by (simp add: clear_kind_def)
next
  case True
  obtain r1 s1 where a: "assign_bool s (''pore.'' @ kind) ps False = (r1, s1)"
    by (cases "assign_bool s (''pore.'' @ kind) ps False")
  note k1 = assign_bool_keys [OF a, of k']
  show ?thesis
  proof (cases r1)
    case (Some e)
    with assms True a k1 show ?thesis by (simp add: clear_kind_def)
  next
    case None
    with assms True a
    have "assign_floats s1 (''pore.'' @ kind @ ''_value'') ps (Scalar NaN) = (r, s')"
      by (simp add: clear_kind_def)
    from assign_floats_keys [OF this, of k'] k1 show ?thesis by simp
  qed
qed

lemma remove_BC_keys:
  assumes "remove_BC s pores = (r, s')"
  shows "has_key s' k' = has_key s k'"
proof -
  define ps where "ps = (case pores of None \<Rightarrow> [0..<Np s] | Some ps \<Rightarrow> ps)"
  obtain r1 s1 where a: "clear_kind s ''dirichlet'' ps = (r1, s1)"
    by (cases "clear_kind s ''dirichlet'' ps")
  note k1 = clear_kind_keys [OF a, of k']
  show ?thesis
  proof (cases r1)
    case (Some e)
    with assms a k1 show ?thesis by (simp add: remove_BC_def ps_def [symmetric])
  next
    case None
    with assms a have "clear_kind s1 ''neumann'' ps = (r, s')"
      by (simp add: remove_BC_def ps_def [symmetric])
    from clear_kind_keys [OF this, of k'] k1 show ?thesis by simp
  qed
qed

lemma assign_bool_fresh:
  assumes "list_all (\<lambda>p. p < Np s) ps"
  shows "fst (assign_bool (setitem_bool s k b0) k ps b) = None"
  using assms by (simp add: assign_bool_def setitem_bool_def put_def)

lemma apply_BC_keys:
  assumes "list_all (\<lambda>p. p < Np s) ps" and "apply_BC s ps K v m = (r, s')"
  shows "s' = s \<or>
    (\<forall>k. has_key s' k = (has_key s k \<or> k = ''pore.'' @ K \<or> k = ''pore.'' @ K @ ''_value''))"
proof -
  define s1 where "s1 = (if \<not> has_key s (''pore.'' @ K) \<or> m = ''overwrite''
                then setitem_bool s (''pore.'' @ K) False else s)"
  obtain r2 s2 where a: "assign_bool s1 (''pore.'' @ K) ps True = (r2, s2)"
    by (cases "assign_bool s1 (''pore.'' @ K) ps True")
  show ?thesis
  proof (cases r2)
    case None
    define s3 where "s3 = (if \<not> has_key s2 (''pore.'' @ K @ ''_value'') \<or> m = ''overwrite''
                     then setitem_float s2 (''pore.'' @ K @ ''_value'') NaN else s2)"
    have r: "assign_floats s3 (''pore.'' @ K @ ''_value'') ps v = (r, s')"
      using None a assms(2) unfolding apply_BC_def s1_def [symmetric] Let_def s3_def
      by simp
    have k1: "has_key s1 k = (has_key s k \<or> k = ''pore.'' @ K)" for k
      by (auto simp: s1_def has_key_def setitem_bool_def)
    have k3: "has_key s3 k = (has_key s2 k \<or> k = ''pore.'' @ K @ ''_value'')" for k
      by (auto simp: s3_def has_key_def setitem_float_def)
    have "has_key s' k = (has_key s k \<or> k = ''pore.'' @ K \<or> k = ''pore.'' @ K @ ''_value'')" for k
      using assign_floats_keys [OF r, of k] assign_bool_keys [OF a, of k] k1 [of k] k3 [of k]
      by blast
    then show ?thesis by blast
  next
    case (Some e)
    have "s1 = s"
    proof (rule ccontr)
      assume "s1 \<noteq> s"
      then have "s1 = setitem_bool s (''pore.'' @ K) False" by (auto simp: s1_def split: if_splits)
      with assign_bool_fresh [OF assms(1), of "''pore.'' @ K" False True] a Some show False
        by simp
    qed
    moreover have "s2 = s1"
      using Some a
      by (auto simp: assign_bool_def split: option.splits sum.splits)
    ultimately have "s' = s"
      using Some a assms(2) unfolding apply_BC_def s1_def [symmetric] Let_def
      by simp
    then show ?thesis by simp
  qed
qed

lemma set_boundary_conditions_paired:
  assumes "paired s" and "set_boundary_conditions s ps K v m = (r, s')"
  shows "paired s'"
proof (cases "K \<in> {''dirichlet'', ''neumann'', ''neumann_group''} 
    \<and> m \<in> {''merge'', ''overwrite'', ''remove''} \<and> list_all (\<lambda>p. p < Np s) ps")
  case False
  with assms(2) have "s' = s"
    by (auto simp: set_boundary_conditions_def parse_mode_def parse_indices_def
        split: if_splits sum.splits)
  with assms show ?thesis by simp
next
  case True
  show ?thesis
  proof (cases "m = ''remove''")
    case rm: True
    with True assms(2) have "remove_BC s (Some ps) = (r, s')"
      by (auto simp: set_boundary_conditions_def parse_mode_def parse_indices_def)
    from remove_BC_keys [OF this] assms(1) show ?thesis by (simp add: paired_def)
  next
    case nr: False
    show ?thesis
    proof (cases "size_of v > 1 \<and> size_of v \<noteq> length ps")
      case sz: True
      with True nr assms(2) have "s' = s"
        by (auto simp: set_boundary_conditions_def parse_mode_def parse_indices_def)
      with assms show ?thesis by simp
    next
      case sz: False
      with True nr assms(2) have eq: "apply_BC s ps K v m = (r, s')"
        by (auto simp: set_boundary_conditions_def parse_mode_def parse_indices_def)
      from True have lt: "list_all (\<lambda>p. p < Np s) ps" by simp
      from True have K: "K \<in> {''dirichlet'', ''neumann'', ''neumann_group''}" by simp
      from apply_BC_keys [OF lt eq] show ?thesis
      proof
        assume "s' = s"
        with assms show ?thesis by simp
      next
        assume "\<forall>k. has_key s' k
          = (has_key s k \<or> k = ''pore.'' @ K \<or> k = ''pore.'' @ K @ ''_value'')"
        with assms(1) K show ?thesis unfolding paired_def by auto
      qed
    qed
  qed
qed

lemma do_call_paired: 
  assumes "paired s" shows "paired (do_call s c)"
proof (cases c)
  case (SetBC ps K v m)
  obtain r s' where a: "set_boundary_conditions s ps K v m = (r, s')"
    by (cases "set_boundary_conditions s ps K v m")
  from set_boundary_conditions_paired [OF assms a] a SetBC show ?thesis by simp
next
  case (RemoveBC ps)
  obtain r s' where a: "remove_BC s ps = (r, s')" by (cases "remove_BC s ps")
  from remove_BC_keys [OF a] assms a RemoveBC show ?thesis by (simp add: paired_def)
qed

lemma foldl_do_call_paired: "paired s \<Longrightarrow> paired (foldl do_call s cs)"
  by (induction cs arbitrary: s) (simp_all add: do_call_paired)

lemma put_bool_no_KeyError: "put_bool arr ps b \<noteq> Inl KeyError"
  by (cases arr) (auto simp: put_def)

lemma put_floats_no_KeyError: "put_floats arr ps (Scalar x) \<noteq> Inl KeyError"
  by (cases arr) (auto simp: put_def)

lemma assign_bool_no_KeyError:
  "has_key s k \<Longrightarrow> fst (assign_bool s k ps b) \<noteq> Some KeyError"
  using put_bool_no_KeyError
  by (auto simp: assign_bool_def has_key_def split: option.splits sum.splits)

lemma assign_floats_no_KeyError:
  "has_key s k \<Longrightarrow> fst (assign_floats s k ps (Scalar x)) \<noteq> Some KeyError"
  using put_floats_no_KeyError
  by (auto simp: assign_floats_def has_key_def split: option.splits sum.splits)

lemma clear_kind_no_KeyError:
  assumes "has_key s (''pore.'' @ kind) = has_key s (''pore.'' @ kind @ ''_value'')"
  shows "fst (clear_kind s kind ps) \<noteq> Some KeyError"
proof (cases "has_key s (''pore.'' @ kind)")
  case False
  then show ?thesis by (simp add: clear_kind_def)
next
  case True
  obtain r s1 where a: "assign_bool s (''pore.'' @ kind) ps False = (r, s1)"
    by (cases "assign_bool s (''pore.'' @ kind) ps False")
  have r: "r \<noteq> Some KeyError" using assign_bool_no_KeyError [OF True, of ps False] a by simp
  have "has_key s1 (''pore.'' @ kind @ ''_value'')"
    using assign_bool_keys [OF a, of "''pore.'' @ kind @ ''_value''"] True assms by simp
  from assign_floats_no_KeyError [OF this, of ps NaN] r True a show ?thesis
    by (cases r) (simp_all add: clear_kind_def)
qed

lemma remove_BC_no_KeyError:
  assumes "paired s"
  shows "fst (remove_BC s pores) \<noteq> Some KeyError"
proof -
  define ps where "ps = (case pores of None \<Rightarrow> [0..<Np s] | Some ps \<Rightarrow> ps)"
  obtain r s1 where a: "clear_kind s ''dirichlet'' ps = (r, s1)"
    by (cases "clear_kind s ''dirichlet'' ps")
  have r: "r \<noteq> Some KeyError"
    using clear_kind_no_KeyError [of s "''dirichlet''" ps] assms a by (simp add: paired_def)
  have "has_key s1 k = has_key s k" for k
    using clear_kind_keys [OF a, of k] by simp
  then have "fst (clear_kind s1 ''neumann'' ps) \<noteq> Some KeyError"
    using clear_kind_no_KeyError [of s1 "''neumann''" ps] assms by (simp add: paired_def)
  with r a show ?thesis
    by (cases r) (simp_all add: remove_BC_def ps_def [symmetric])
qed

text \<open>
  Claim C10: after every sequence of \<open>set_boundary_conditions\<close> and \<open>remove_BC\<close>
  calls, failed ones included, that starts where the label and value keys of each kind are
  stored together, they still are, and \<open>remove_BC\<close> does not raise KeyError.
\<close>

theorem bc_keys_paired:
  assumes "paired s"
  shows "paired (foldl do_call s calls) \<and>
         fst (remove_BC (foldl do_call s calls) pores) \<noteq> Some KeyError"
  using assms by (simp add: foldl_do_call_paired remove_BC_no_KeyError)

theorem bc_keys_paired_witness:
  "paired \<lparr>Np = 2, props = Map.empty, quantity = None\<rparr> \<and>
   paired (foldl do_call \<lparr>Np = 2, props = Map.empty, quantity = None\<rparr>
     [SetBC [0] ''dirichlet'' (Scalar (Val 1)) ''merge'', RemoveBC None]) \<and>
   fst (remove_BC (foldl do_call \<lparr>Np = 2, props = Map.empty, quantity = None\<rparr>
     [SetBC [0] ''dirichlet'' (Scalar (Val 1)) ''merge'', RemoveBC None]) (Some [1]))
     \<noteq> Some KeyError"
  using bc_keys_paired [of "\<lparr>Np = 2, props = Map.empty, quantity = None\<rparr>"
      "[SetBC [0] ''dirichlet'' (Scalar (Val 1)) ''merge'', RemoveBC None]" "Some [1]"]
  by (simp add: paired_def has_key_def)


section \<open>Setting and removing conditions\<close>

lemma broadcast_length: "broadcast v n = Inr vs \<Longrightarrow> length vs = n"
  by (cases v) (auto split: if_splits)

lemma clear_kind_stored:
  assumes "props s lk = Some (BoolArr l)" and "props s vk = Some (FloatArr v)"
    and "list_all (\<lambda>p. p < length l \<and> p < length v) ps"
    and "lk = ''pore.'' @ kind" and "vk = ''pore.'' @ kind @ ''_value''"
  shows "clear_kind s kind ps = (None, s\<lparr>props := (props s)
           (lk \<mapsto> BoolArr (fold (\<lambda>(i, v) b. b[i := v]) (zip ps (replicate (length ps) False)) l),
            vk \<mapsto> FloatArr (fold (\<lambda>(i, v) b. b[i := v]) (zip ps (replicate (length ps) NaN)) v))\<rparr>)"
proof -
  have ne: "lk \<noteq> vk" using assms(4,5) by simp
  have 1: "list_all (\<lambda>p. p < length l) ps" "list_all (\<lambda>p. p < length v) ps"
    using assms(3) by (simp_all add: list_all_iff)
  have a: "assign_bool s lk ps False = (None, s\<lparr>props := (props s)
           (lk \<mapsto> BoolArr (fold (\<lambda>(i, v) b. b[i := v]) (zip ps (replicate (length ps) False)) l))\<rparr>)"
    using assms(1) 1 by (simp add: assign_bool_def put_def)
  have b: "assign_floats (s\<lparr>props := (props s)
           (lk \<mapsto> BoolArr (fold (\<lambda>(i, v) b. b[i := v]) (zip ps (replicate (length ps) False)) l))\<rparr>)
        vk ps (Scalar NaN) = (None, s\<lparr>props := (props s)
           (lk \<mapsto> BoolArr (fold (\<lambda>(i, v) b. b[i := v]) (zip ps (replicate (length ps) False)) l),
            vk \<mapsto> FloatArr (fold (\<lambda>(i, v) b. b[i := v]) (zip ps (replicate (length ps) NaN)) v))\<rparr>)"
    using assms(2) 1 ne by (simp add: assign_floats_def put_def)
  have "has_key s lk" using assms(1) by (simp add: has_key_def)
  then show ?thesis
    unfolding clear_kind_def assms(4) [symmetric] assms(5) [symmetric] using a b by simp
qed

lemma clear_kind_absent:
  "props s (''pore.'' @ kind) = None \<Longrightarrow> clear_kind s kind ps = (None, s)"
  by (simp add: clear_kind_def has_key_def)

lemma no_BC_at_cases:
  assumes "no_BC_at s kind ps"
  shows "(props s (''pore.'' @ kind) = None \<and> props s (''pore.'' @ kind @ ''_value'') = None) \<or>
    (\<exists>l v. props s (''pore.'' @ kind) = Some (BoolArr l) \<and>
       props s (''pore.'' @ kind @ ''_value'') = Some (FloatArr v) \<and>
       length l = Np s \<and> length v = Np s \<and>
       list_all (\<lambda>p. p < Np s \<and> \<not> l ! p \<and> v ! p = NaN) ps)"
proof (cases "props s (''pore.'' @ kind)")
  case None
  with assms show ?thesis
    by (cases "props s (''pore.'' @ kind @ ''_value'')") (simp_all add: no_BC_at_def)
next
  case (Some a)
  show ?thesis
  proof (cases "props s (''pore.'' @ kind @ ''_value'')")
    case None
    with Some assms show ?thesis by (cases a) (simp_all add: no_BC_at_def)
  next
    case Some2: (Some b)
    with Some assms show ?thesis by (cases a; cases b) (simp_all add: no_BC_at_def)
  qed
qed

lemma clear_kind_no_BC:
  assumes "no_BC_at s kind ps"
  shows "clear_kind s kind ps = (None, s)"
proof (cases "props s (''pore.'' @ kind)")
  case None
  then show ?thesis by (rule clear_kind_absent)
next
  case (Some a)
  with no_BC_at_cases [OF assms] obtain l v where lv: "props s (''pore.'' @ kind) = Some (BoolArr l)"
     "props s (''pore.'' @ kind @ ''_value'') = Some (FloatArr v)"
     "length l = Np s" "length v = Np s" "list_all (\<lambda>p. p < Np s \<and> \<not> l ! p \<and> v ! p = NaN) ps"
    by auto
  have 1: "list_all (\<lambda>p. p < length l \<and> p < length v) ps"
    and 2: "list_all (\<lambda>p. p < length l \<and> l ! p = False) ps"
    and 3: "list_all (\<lambda>p. p < length v \<and> v ! p = NaN) ps"
    using lv(3-5) by (simp_all add: list_all_iff)
  have "s\<lparr>props := (props s)(''pore.'' @ kind \<mapsto> BoolArr l, ''pore.'' @ kind @ ''_value'' \<mapsto> FloatArr v)\<rparr> = s"
    using lv(1,2) by (simp add: map_upd_triv)
  then show ?thesis
    using clear_kind_stored [OF lv(1,2) 1 refl refl] 
    unfolding fold_upd_same [OF 2] fold_upd_same [OF 3] by simp
qed

lemma apply_BC_merge:
  assumes nb: "no_BC_at s kind ps" and lt: "list_all (\<lambda>p. p < Np s) ps"
    and ap: "apply_BC s ps kind values ''merge'' = (None, s1)"
    and lk: "lk = ''pore.'' @ kind" and vk: "vk = ''pore.'' @ kind @ ''_value''"
  shows "\<exists>l0 v0 vs. length vs = length ps \<and> length l0 = Np s \<and> length v0 = Np s \<and>
     list_all (\<lambda>p. p < Np s \<and> \<not> l0 ! p \<and> v0 ! p = NaN) ps \<and>
     s1 = s\<lparr>props := (props s)
        (lk \<mapsto> BoolArr (fold (\<lambda>(i, v) b. b[i := v]) (zip ps (replicate (length ps) True)) l0),
         vk \<mapsto> FloatArr (fold (\<lambda>(i, v) b. b[i := v]) (zip ps vs) v0))\<rparr> \<and>
     (if has_key s lk then props s lk = Some (BoolArr l0) \<and> props s vk = Some (FloatArr v0)
      else l0 = replicate (Np s) False \<and> v0 = replicate (Np s) NaN)"
proof -
  have ne: "lk \<noteq> vk" using lk vk by simp
  from no_BC_at_cases [OF nb] show ?thesis
  proof (elim disjE conjE exE)
    assume n: "props s (''pore.'' @ kind) = None" "props s (''pore.'' @ kind @ ''_value'') = None"
    then have n': "props s lk = None" "props s vk = None" using lk vk by simp_all
    let ?l0 = "replicate (Np s) False" and ?v0 = "replicate (Np s) NaN"
    let ?l1 = "fold (\<lambda>(i, v) b. b[i := v]) (zip ps (replicate (length ps) True)) ?l0"
    from ap have ap': "apply_BC s ps kind values ''merge'' = (None, s1)" .
    have a1: "assign_bool (setitem_bool s lk False) lk ps True =
        (None, s\<lparr>props := (props s)(lk \<mapsto> BoolArr ?l1)\<rparr>)"
      using lt by (simp add: assign_bool_def setitem_bool_def put_def)
    have h2: "\<not> has_key (s\<lparr>props := (props s)(lk \<mapsto> BoolArr ?l1)\<rparr>) vk"
      using n' ne by (simp add: has_key_def)
    have st: "setitem_float (s\<lparr>props := (props s)(lk \<mapsto> BoolArr ?l1)\<rparr>) vk NaN
        = s\<lparr>props := (props s)(lk \<mapsto> BoolArr ?l1, vk \<mapsto> FloatArr ?v0)\<rparr>"
      by (simp add: setitem_float_def)
    have "assign_floats (s\<lparr>props := (props s)(lk \<mapsto> BoolArr ?l1, vk \<mapsto> FloatArr ?v0)\<rparr>)
        vk ps values = (None, s1)"
      using ap n' a1 st ne ne [symmetric] unfolding apply_BC_def lk [symmetric] vk [symmetric] Let_def
      by (simp add: has_key_def)
    then obtain vs where vs: "broadcast values (length ps) = Inr vs"
      and s1: "s1 = s\<lparr>props := (props s)(lk \<mapsto> BoolArr ?l1,
           vk \<mapsto> FloatArr (fold (\<lambda>(i, v) b. b[i := v]) (zip ps vs) ?v0))\<rparr>"
      using lt
      by (auto simp: assign_floats_def put_def split: sum.splits)
    have "list_all (\<lambda>p. p < Np s \<and> \<not> ?l0 ! p \<and> ?v0 ! p = NaN) ps"
      using lt by (simp add: list_all_iff)
    with s1 broadcast_length [OF vs] n' show ?thesis
      by (intro exI [of _ ?l0] exI [of _ ?v0] exI [of _ vs]) (simp add: has_key_def)
  next
    fix l0 v0
    assume st: "props s (''pore.'' @ kind) = Some (BoolArr l0)"
      "props s (''pore.'' @ kind @ ''_value'') = Some (FloatArr v0)"
      and len: "length l0 = Np s" "length v0 = Np s"
      and cl: "list_all (\<lambda>p. p < Np s \<and> \<not> l0 ! p \<and> v0 ! p = NaN) ps"
    have st': "props s lk = Some (BoolArr l0)" "props s vk = Some (FloatArr v0)"
      using st lk vk by simp_all
    let ?l1 = "fold (\<lambda>(i, v) b. b[i := v]) (zip ps (replicate (length ps) True)) l0"
    have a1: "assign_bool s lk ps True = (None, s\<lparr>props := (props s)(lk \<mapsto> BoolArr ?l1)\<rparr>)"
      using lt st' len by (simp add: assign_bool_def put_def)
    have h2: "has_key (s\<lparr>props := (props s)(lk \<mapsto> BoolArr ?l1)\<rparr>) vk"
      using st' ne by (simp add: has_key_def)
    have "assign_floats (s\<lparr>props := (props s)(lk \<mapsto> BoolArr ?l1)\<rparr>) vk ps values = (None, s1)"
      using ap st' a1 ne ne [symmetric] unfolding apply_BC_def lk [symmetric] vk [symmetric] Let_def
      by (simp add: has_key_def)
    then obtain vs where vs: "broadcast values (length ps) = Inr vs"
      and s1: "s1 = s\<lparr>props := (props s)(lk \<mapsto> BoolArr ?l1,
           vk \<mapsto> FloatArr (fold (\<lambda>(i, v) b. b[i := v]) (zip ps vs) v0))\<rparr>"
      using lt st' ne len
      by (auto simp: assign_floats_def put_def split: sum.splits)
    with s1 broadcast_length [OF vs] st' len cl show ?thesis
      by (intro exI [of _ l0] exI [of _ v0] exI [of _ vs]) (simp add: has_key_def)
  qed
qed

lemma no_BC_at_cong:
  assumes "no_BC_at s kind ps" and "Np s' = Np s"
    and "props s' (''pore.'' @ kind) = props s (''pore.'' @ kind)"
    and "props s' (''pore.'' @ kind @ ''_value'') = props s (''pore.'' @ kind @ ''_value'')"
  shows "no_BC_at s' kind ps"
  using assms(1) unfolding no_BC_at_def assms(2) assms(3) assms(4) .

lemma no_BC_at_fresh:
  assumes "list_all (\<lambda>p. p < Np s) ps"
    and "props s (''pore.'' @ kind) = Some (BoolArr (replicate (Np s) False))"
    and "props s (''pore.'' @ kind @ ''_value'') = Some (FloatArr (replicate (Np s) NaN))"
  shows "no_BC_at s kind ps"
  using assms by (simp add: no_BC_at_def list_all_iff)

lemma set_merge_succeeds:
  assumes "kind \<in> {''dirichlet'', ''neumann''}"
    and "set_boundary_conditions s ps kind values ''merge'' = (None, s1)"
  shows "list_all (\<lambda>p. p < Np s) ps \<and> apply_BC s ps kind values ''merge'' = (None, s1)"
  using assms
  by (auto simp: set_boundary_conditions_def parse_mode_def parse_indices_def
      split: if_splits)

lemma set_then_remove_aux:
  assumes kind: "kind = ''dirichlet'' \<and> other = ''neumann'' \<or> kind = ''neumann'' \<and> other = ''dirichlet''"
    and nb: "no_BC_at s kind ps" and nbo: "no_BC_at s other ps"
    and lt: "list_all (\<lambda>p. p < Np s) ps"
    and ap: "apply_BC s ps kind values ''merge'' = (None, s1)"
  shows "clear_kind s1 other ps = (None, s1) \<and>
     clear_kind s1 kind ps = (None, if has_key s (''pore.'' @ kind) then s
        else s\<lparr>props := (props s)(''pore.'' @ kind \<mapsto> BoolArr (replicate (Np s) False),
                 ''pore.'' @ kind @ ''_value'' \<mapsto> FloatArr (replicate (Np s) NaN))\<rparr>) \<and>
     no_BC_at (if has_key s (''pore.'' @ kind) then s
        else s\<lparr>props := (props s)(''pore.'' @ kind \<mapsto> BoolArr (replicate (Np s) False),
                 ''pore.'' @ kind @ ''_value'' \<mapsto> FloatArr (replicate (Np s) NaN))\<rparr>) other ps \<and>
     no_BC_at (if has_key s (''pore.'' @ kind) then s
        else s\<lparr>props := (props s)(''pore.'' @ kind \<mapsto> BoolArr (replicate (Np s) False),
                 ''pore.'' @ kind @ ''_value'' \<mapsto> FloatArr (replicate (Np s) NaN))\<rparr>) kind ps"
proof -
  define lk where "lk = ''pore.'' @ kind"
  define vk where "vk = ''pore.'' @ kind @ ''_value''"
  define lo where "lo = ''pore.'' @ other"
  define vo where "vo = ''pore.'' @ other @ ''_value''"
  have ne: "lk \<noteq> vk" "lo \<noteq> lk" "lo \<noteq> vk" "vo \<noteq> lk" "vo \<noteq> vk"
    using kind by (auto simp: lk_def vk_def lo_def vo_def)
  from apply_BC_merge [OF nb lt ap lk_def vk_def]
  obtain l0 v0 vs where len: "length vs = length ps" "length l0 = Np s" "length v0 = Np s"
    and cl: "list_all (\<lambda>p. p < Np s \<and> \<not> l0 ! p \<and> v0 ! p = NaN) ps"
    and s1: "s1 = s\<lparr>props := (props s)
        (lk \<mapsto> BoolArr (fold (\<lambda>(i, v) b. b[i := v]) (zip ps (replicate (length ps) True)) l0),
         vk \<mapsto> FloatArr (fold (\<lambda>(i, v) b. b[i := v]) (zip ps vs) v0))\<rparr>"
    and old: "if has_key s lk then props s lk = Some (BoolArr l0) \<and> props s vk = Some (FloatArr v0)
      else l0 = replicate (Np s) False \<and> v0 = replicate (Np s) NaN"
    by blast
  have "Np s1 = Np s" "props s1 lo = props s lo" "props s1 vo = props s vo"
    using ne by (simp_all add: s1)
  then have o1: "no_BC_at s1 other ps"
    unfolding lo_def vo_def by (rule no_BC_at_cong [OF nbo])
  have c_other: "clear_kind s1 other ps = (None, s1)" by (rule clear_kind_no_BC [OF o1])
  let ?l1 = "fold (\<lambda>(i, v) b. b[i := v]) (zip ps (replicate (length ps) True)) l0"
  let ?v1 = "fold (\<lambda>(i, v) b. b[i := v]) (zip ps vs) v0"
  have p1: "props s1 lk = Some (BoolArr ?l1)" "props s1 vk = Some (FloatArr ?v1)"
    using ne by (simp_all add: s1)
  have in1: "list_all (\<lambda>p. p < length ?l1 \<and> p < length ?v1) ps"
    using lt len by (simp add: list_all_iff length_fold_upd)
  have r1: "list_all (\<lambda>p. p < length l0 \<and> l0 ! p = False) ps"
    and r2: "list_all (\<lambda>p. p < length v0 \<and> v0 ! p = NaN) ps"
    using cl len by (simp_all add: list_all_iff)
  have len': "length (replicate (length ps) True) = length ps" by simp
  have c_kind: "clear_kind s1 kind ps = (None, s1\<lparr>props := (props s1)
           (lk \<mapsto> BoolArr l0, vk \<mapsto> FloatArr v0)\<rparr>)"
    using clear_kind_stored [OF p1 in1 lk_def vk_def]
    unfolding fold_upd_restore [OF r1 len'] fold_upd_restore [OF r2 len(1)] .
  have fin: "s1\<lparr>props := (props s1)(lk \<mapsto> BoolArr l0, vk \<mapsto> FloatArr v0)\<rparr>
      = s\<lparr>props := (props s)(lk \<mapsto> BoolArr l0, vk \<mapsto> FloatArr v0)\<rparr>"
    using ne by (simp add: s1)
  let ?res = "if has_key s lk then s
        else s\<lparr>props := (props s)(lk \<mapsto> BoolArr (replicate (Np s) False),
                 vk \<mapsto> FloatArr (replicate (Np s) NaN))\<rparr>"
  have res: "s\<lparr>props := (props s)(lk \<mapsto> BoolArr l0, vk \<mapsto> FloatArr v0)\<rparr> = ?res"
    using old by (auto simp: map_upd_triv)
  have "Np ?res = Np s" "props ?res lo = props s lo" "props ?res vo = props s vo"
    using ne by simp_all
  then have n_other: "no_BC_at ?res other ps"
    unfolding lo_def vo_def by (rule no_BC_at_cong [OF nbo])
  have n_kind: "no_BC_at ?res kind ps"
  proof (cases "has_key s lk")
    case True
    with nb show ?thesis by simp
  next
    case False
    let ?f = "s\<lparr>props := (props s)(lk \<mapsto> BoolArr (replicate (Np s) False),
                 vk \<mapsto> FloatArr (replicate (Np s) NaN))\<rparr>"
    have "list_all (\<lambda>p. p < Np ?f) ps" "props ?f lk = Some (BoolArr (replicate (Np ?f) False))"
      "props ?f vk = Some (FloatArr (replicate (Np ?f) NaN))"
      using lt ne by simp_all
    then have "no_BC_at ?f kind ps"
      unfolding lk_def vk_def by (rule no_BC_at_fresh)
    with False show ?thesis unfolding lk_def vk_def by simp
  qed
  have c_kind': "clear_kind s1 kind ps = (None, ?res)"
    using c_kind unfolding fin res .
  from c_other c_kind' n_other n_kind show ?thesis
    unfolding lk_def vk_def by blast
qed

text \<open>
  For the two kinds that \<open>remove_BC\<close> clears, \<open>dirichlet\<close> and \<open>neumann\<close>, the round trip
  holds: when the pores carry no condition, a successful \<open>set_boundary_conditions\<close> in
  mode \<open>merge\<close> followed by \<open>remove_BC\<close> on the same pores returns the object as it was
  where the arrays of the kind were stored, and leaves fresh all-False and all-NaN arrays
  where they were not; either way the labels are False and the values NaN at the pores,
  for both kinds.
\<close>

theorem set_then_remove_restores:
  assumes "kind \<in> {''dirichlet'', ''neumann''}"
    and "no_BC_at s ''dirichlet'' pores" and "no_BC_at s ''neumann'' pores"
    and "set_boundary_conditions s pores kind values ''merge'' = (None, s1)"
  shows "remove_BC s1 (Some pores) =
      (None, if has_key s (''pore.'' @ kind) then s
        else s\<lparr>props := (props s)(''pore.'' @ kind \<mapsto> BoolArr (replicate (Np s) False),
                 ''pore.'' @ kind @ ''_value'' \<mapsto> FloatArr (replicate (Np s) NaN))\<rparr>)
    \<and> no_BC_at (snd (remove_BC s1 (Some pores))) ''dirichlet'' pores
    \<and> no_BC_at (snd (remove_BC s1 (Some pores))) ''neumann'' pores
    \<and> has_key (snd (remove_BC s1 (Some pores))) (''pore.'' @ kind)
    \<and> has_key (snd (remove_BC s1 (Some pores))) (''pore.'' @ kind @ ''_value'')"
proof -
  note ok = set_merge_succeeds [OF assms(1,4)]
  from ok have lt: "list_all (\<lambda>p. p < Np s) pores"
    and ap: "apply_BC s pores kind values ''merge'' = (None, s1)" by simp_all
  let ?res = "if has_key s (''pore.'' @ kind) then s
        else s\<lparr>props := (props s)(''pore.'' @ kind \<mapsto> BoolArr (replicate (Np s) False),
                 ''pore.'' @ kind @ ''_value'' \<mapsto> FloatArr (replicate (Np s) NaN))\<rparr>"
  have keys: "has_key ?res (''pore.'' @ kind) \<and> has_key ?res (''pore.'' @ kind @ ''_value'')"
  proof (cases "has_key s (''pore.'' @ kind)")
    case False
    then show ?thesis by (simp add: has_key_def)
  next
    case True
    from assms(1) have "no_BC_at s kind pores" using assms(2,3) by auto
    from no_BC_at_cases [OF this] True show ?thesis by (auto simp: has_key_def)
  qed
  from assms(1) show ?thesis
  proof (elim insertE emptyE)
    assume k: "kind = ''dirichlet''"
    from set_then_remove_aux [of kind "''neumann''" s pores "values" s1] k assms(2,3) lt ap
    have a: "clear_kind s1 ''neumann'' pores = (None, s1)"
      "clear_kind s1 ''dirichlet'' pores = (None, ?res)"
      "no_BC_at ?res ''neumann'' pores" "no_BC_at ?res ''dirichlet'' pores"
      by simp_all
    from a(3) have "clear_kind ?res ''neumann'' pores = (None, ?res)"
      by (rule clear_kind_no_BC)
    with a(2) have "remove_BC s1 (Some pores) = (None, ?res)"
      by (simp add: remove_BC_def)
    with a(3,4) keys show ?thesis by simp
  next
    assume k: "kind = ''neumann''"
    from set_then_remove_aux [of kind "''dirichlet''" s pores "values" s1] k assms(2,3) lt ap
    have a: "clear_kind s1 ''dirichlet'' pores = (None, s1)"
      "clear_kind s1 ''neumann'' pores = (None, ?res)"
      "no_BC_at ?res ''dirichlet'' pores" "no_BC_at ?res ''neumann'' pores"
      by simp_all
    then have "remove_BC s1 (Some pores) = (None, ?res)"
      by (simp add: remove_BC_def)
    with a(3,4) keys show ?thesis by simp
  qed
qed

theorem set_then_remove_restores_witness:
  "no_BC_at \<lparr>Np = 2, props = Map.empty, quantity = None\<rparr> ''dirichlet'' [1] \<and>
   no_BC_at \<lparr>Np = 2, props = Map.empty, quantity = None\<rparr> ''neumann'' [1] \<and>
   set_boundary_conditions \<lparr>Np = 2, props = Map.empty, quantity = None\<rparr> [1] ''dirichlet''
      (Scalar (Val 3)) ''merge''
     = (None, \<lparr>Np = 2, props = [''pore.dirichlet'' \<mapsto> BoolArr [False, True],
          ''pore.dirichlet_value'' \<mapsto> FloatArr [NaN, Val 3]], quantity = None\<rparr>) \<and>
   remove_BC \<lparr>Np = 2, props = [''pore.dirichlet'' \<mapsto> BoolArr [False, True],
          ''pore.dirichlet_value'' \<mapsto> FloatArr [NaN, Val 3]], quantity = None\<rparr> (Some [1])
     = (None, \<lparr>Np = 2, props = [''pore.dirichlet'' \<mapsto> BoolArr [False, False],
          ''pore.dirichlet_value'' \<mapsto> FloatArr [NaN, NaN]], quantity = None\<rparr>)"
proof -
  have s: "set_boundary_conditions \<lparr>Np = 2, props = Map.empty, quantity = None\<rparr> [1] ''dirichlet''
      (Scalar (Val 3)) ''merge''
     = (None, \<lparr>Np = 2, props = [''pore.dirichlet'' \<mapsto> BoolArr [False, True],
          ''pore.dirichlet_value'' \<mapsto> FloatArr [NaN, Val 3]], quantity = None\<rparr>)"
    by (simp add: set_boundary_conditions_def parse_mode_def parse_indices_def apply_BC_def
      has_key_def setitem_bool_def setitem_float_def assign_bool_def assign_floats_def put_def
      numeral_2_eq_2)
  have n: "no_BC_at \<lparr>Np = 2, props = Map.empty, quantity = None\<rparr> ''dirichlet'' [1]"
    "no_BC_at \<lparr>Np = 2, props = Map.empty, quantity = None\<rparr> ''neumann'' [1]"
    by (simp_all add: no_BC_at_def)
  have k: "''dirichlet'' \<in> {''dirichlet'', ''neumann''}" by simp
  from set_then_remove_restores [OF k n s] s n show ?thesis
    by (simp add: has_key_def numeral_2_eq_2)
qed

text \<open>
  Claim C9 at the third kind that \<open>set_boundary_conditions\<close> accepts: on a fresh object
  over two pores a condition of the kind \<open>neumann_group\<close> is set at pore 0 in mode
  \<open>merge\<close>; \<open>remove_BC\<close> on the same pore, called directly or through the mode
  \<open>remove\<close>, clears the arrays of \<open>dirichlet\<close> and \<open>neumann\<close> only and returns the object
  unchanged, the label still True and the value still 1.
\<close>

theorem neumann_group_not_removed:
  "set_boundary_conditions \<lparr>Np = 2, props = Map.empty, quantity = None\<rparr> [0]
      ''neumann_group'' (Scalar (Val 1)) ''merge''
     = (None, \<lparr>Np = 2, props = [''pore.neumann_group'' \<mapsto> BoolArr [True, False],
          ''pore.neumann_group_value'' \<mapsto> FloatArr [Val 1, NaN]], quantity = None\<rparr>) \<and>
   remove_BC \<lparr>Np = 2, props = [''pore.neumann_group'' \<mapsto> BoolArr [True, False],
          ''pore.neumann_group_value'' \<mapsto> FloatArr [Val 1, NaN]], quantity = None\<rparr> (Some [0])
     = (None, \<lparr>Np = 2, props = [''pore.neumann_group'' \<mapsto> BoolArr [True, False],
          ''pore.neumann_group_value'' \<mapsto> FloatArr [Val 1, NaN]], quantity = None\<rparr>) \<and>
   set_boundary_conditions \<lparr>Np = 2, props = [''pore.neumann_group'' \<mapsto> BoolArr [True, False],
          ''pore.neumann_group_value'' \<mapsto> FloatArr [Val 1, NaN]], quantity = None\<rparr> [0]
      ''neumann_group'' (Scalar NaN) ''remove''
     = (None, \<lparr>Np = 2, props = [''pore.neumann_group'' \<mapsto> BoolArr [True, False],
          ''pore.neumann_group_value'' \<mapsto> FloatArr [Val 1, NaN]], quantity = None\<rparr>)"
  by (simp add: set_boundary_conditions_def parse_mode_def parse_indices_def apply_BC_def
      has_key_def setitem_bool_def setitem_float_def assign_bool_def assign_floats_def put_def
      remove_BC_def clear_kind_def numeral_2_eq_2)

section \<open>The right-hand side: proofs\<close>

lemma wf_kind_cases:
  assumes "wf_kind s kind"
  shows "(props s (''pore.'' @ kind) = None \<and> props s (''pore.'' @ kind @ ''_value'') = None) \<or>
    (\<exists>l v. props s (''pore.'' @ kind) = Some (BoolArr l) \<and>
       props s (''pore.'' @ kind @ ''_value'') = Some (FloatArr v) \<and>
       length l = Np s \<and> length v = Np s)"
proof (cases "props s (''pore.'' @ kind)")
  case None
  with assms show ?thesis
    by (cases "props s (''pore.'' @ kind @ ''_value'')") (simp_all add: wf_kind_def)
next
  case (Some a)
  show ?thesis
  proof (cases "props s (''pore.'' @ kind @ ''_value'')")
    case None
    with Some assms show ?thesis by (cases a) (simp_all add: wf_kind_def)
  next
    case Some2: (Some b)
    with Some assms show ?thesis by (cases a; cases b) (simp_all add: wf_kind_def)
  qed
qed

lemma masked_store_stored:
  assumes "props s lk = Some (BoolArr l)" and "props s vk = Some (FloatArr v)"
    and "length l = n" and "length v = n" and "length b = n"
  shows "masked_store s b lk vk neg =
     Inr (map (\<lambda>(k, old, new). if k then new else old)
            (zip l (zip b (if neg then map fneg v else v))))"
  using assms by (simp add: masked_store_def)

lemma nth_masked:
  assumes "i < n" and "length l = n" and "length v = n" and "length b = n"
  shows "map (\<lambda>(k, old, new). if k then new else old) (zip l (zip b v)) ! i
     = (if l ! i then v ! i else b ! i)"
  using assms by simp

text \<open>
  Claim C6: on a well-formed store \<open>build_b\<close> returns a vector of length \<open>Np\<close> whose
  entry is the negated prescribed flux at every node with a Neumann condition (also at a
  node that holds a Dirichlet condition as well), the prescribed value at every node
  with only a Dirichlet condition, and zero at every node without a condition.
\<close>

theorem build_b_entries:
  assumes "wf_kind s ''dirichlet''" and "wf_kind s ''neumann''"
  shows "\<exists>b. build_b s = Inr b \<and> length b = Np s \<and>
     (\<forall>i<Np s. b ! i =
        (if label_at s ''neumann'' i then fneg (value_at s ''neumann'' i)
         else if label_at s ''dirichlet'' i then value_at s ''dirichlet'' i
         else Val 0))"
proof -
  define b0 where "b0 = replicate (Np s) (Val 0)"
  have "\<exists>b1. (if has_key s ''pore.dirichlet''
            then masked_store s b0 ''pore.dirichlet'' ''pore.dirichlet_value'' False
            else Inr b0) = Inr b1 \<and> length b1 = Np s \<and>
      (\<forall>i<Np s. b1 ! i = (if label_at s ''dirichlet'' i then value_at s ''dirichlet'' i else Val 0))"
    using wf_kind_cases [OF assms(1)]
  proof (elim disjE conjE exE)
    assume "props s (''pore.'' @ ''dirichlet'') = None"
    then show ?thesis by (simp add: has_key_def label_at_def b0_def)
  next
    fix l v
    assume a: "props s (''pore.'' @ ''dirichlet'') = Some (BoolArr l)"
      "props s (''pore.'' @ ''dirichlet'' @ ''_value'') = Some (FloatArr v)"
      "length l = Np s" "length v = Np s"
    then have a': "props s ''pore.dirichlet'' = Some (BoolArr l)"
      "props s ''pore.dirichlet_value'' = Some (FloatArr v)" by simp_all
    have "length b0 = Np s" by (simp add: b0_def)
    from masked_store_stored [OF a' a(3,4) this, of False] a' a(3,4) show ?thesis
      by (simp add: has_key_def label_at_def value_at_def b0_def)
  qed
  then obtain b1 where b1: "(if has_key s ''pore.dirichlet''
            then masked_store s b0 ''pore.dirichlet'' ''pore.dirichlet_value'' False
            else Inr b0) = Inr b1" "length b1 = Np s"
      "\<forall>i<Np s. b1 ! i = (if label_at s ''dirichlet'' i then value_at s ''dirichlet'' i else Val 0)"
    by blast
  have r: "build_b s = (if has_key s ''pore.neumann''
          then masked_store s b1 ''pore.neumann'' ''pore.neumann_value'' True
          else Inr b1)"
    using b1(1) by (simp add: build_b_def b0_def [symmetric])
  from wf_kind_cases [OF assms(2)] show ?thesis
  proof (elim disjE conjE exE)
    assume "props s (''pore.'' @ ''neumann'') = None"
    with b1 show ?thesis unfolding r by (simp add: has_key_def label_at_def)
  next
    fix l v
    assume a: "props s (''pore.'' @ ''neumann'') = Some (BoolArr l)"
      "props s (''pore.'' @ ''neumann'' @ ''_value'') = Some (FloatArr v)"
      "length l = Np s" "length v = Np s"
    then have a': "props s ''pore.neumann'' = Some (BoolArr l)"
      "props s ''pore.neumann_value'' = Some (FloatArr v)" by simp_all
    from masked_store_stored [OF a' a(3,4) b1(2), of True] a' a(3,4) b1(2,3) show ?thesis
      unfolding r by (simp add: has_key_def label_at_def value_at_def)
  qed
qed

theorem build_b_entries_witness:
  "wf_kind \<lparr>Np = 3, props = [''pore.dirichlet'' \<mapsto> BoolArr [True, False, True],
        ''pore.dirichlet_value'' \<mapsto> FloatArr [Val 5, NaN, Val 7],
        ''pore.neumann'' \<mapsto> BoolArr [False, False, True],
        ''pore.neumann_value'' \<mapsto> FloatArr [NaN, NaN, Val 2]], quantity = None\<rparr> ''dirichlet'' \<and>
   wf_kind \<lparr>Np = 3, props = [''pore.dirichlet'' \<mapsto> BoolArr [True, False, True],
        ''pore.dirichlet_value'' \<mapsto> FloatArr [Val 5, NaN, Val 7],
        ''pore.neumann'' \<mapsto> BoolArr [False, False, True],
        ''pore.neumann_value'' \<mapsto> FloatArr [NaN, NaN, Val 2]], quantity = None\<rparr> ''neumann'' \<and>
   build_b \<lparr>Np = 3, props = [''pore.dirichlet'' \<mapsto> BoolArr [True, False, True],
        ''pore.dirichlet_value'' \<mapsto> FloatArr [Val 5, NaN, Val 7],
        ''pore.neumann'' \<mapsto> BoolArr [False, False, True],
        ''pore.neumann_value'' \<mapsto> FloatArr [NaN, NaN, Val 2]], quantity = None\<rparr>
     = Inr [Val 5, Val 0, Val (- 2)]"
proof -
  let ?s = "\<lparr>Np = 3, props = [''pore.dirichlet'' \<mapsto> BoolArr [True, False, True],
        ''pore.dirichlet_value'' \<mapsto> FloatArr [Val 5, NaN, Val 7],
        ''pore.neumann'' \<mapsto> BoolArr [False, False, True],
        ''pore.neumann_value'' \<mapsto> FloatArr [NaN, NaN, Val 2]], quantity = None\<rparr>"
  have w: "wf_kind ?s ''dirichlet''" "wf_kind ?s ''neumann''"
    by (simp_all add: wf_kind_def)
  from build_b_entries [OF w] obtain b where b: "build_b ?s = Inr b" "length b = 3"
    "\<forall>i<3. b ! i =
        (if label_at ?s ''neumann'' i then fneg (value_at ?s ''neumann'' i)
         else if label_at ?s ''dirichlet'' i then value_at ?s ''dirichlet'' i
         else Val 0)" by auto
  from b(3) have "b ! 0 = Val 5" "b ! 1 = Val 0" "b ! 2 = Val (- 2)"
    by (simp_all add: label_at_def value_at_def)
  with b(2) have "b = [Val 5, Val 0, Val (- 2)]"
    by (cases b; cases "tl b"; cases "tl (tl b)") auto
  with b(1) w show ?thesis by simp
qed

section \<open>The rows of Dirichlet nodes\<close>

lemma select_zip3:
  assumes "length rs = length cs" and "length cs = length ds"
  shows "zip (select (map f rs) rs) (zip (select (map f rs) cs) (select (map f rs) ds))
       = filter (\<lambda>(r, c, v). f r) (zip rs (zip cs ds))"
  using assms by (induction rs cs ds rule: list_induct3) (simp_all add: select_def)

lemma length_select:
  "length m = length xs \<Longrightarrow> length (select m xs) = length (filter id m)"
  by (induction m xs rule: list_induct2) (simp_all add: select_def)

lemma zip_diag: "zip P (zip P (replicate (length P) x)) = map (\<lambda>p. (p, p, x)) P"
  by (induction P) simp_all

lemma laplacian_lengths:
  "length (row (laplacian m)) = length (col (laplacian m))"
  "length (col (laplacian m)) = length (data (laplacian m))"
  by (simp_all add: laplacian_def Let_def)

lemma entries_build_A:
  assumes "props s ''pore.dirichlet'' = Some (BoolArr lab)"
  shows "entries (build_A s conns g) =
     filter (\<lambda>(r, c, v). r \<notin> set (toindices lab)) (entries (build_laplacian s conns g)) @
     map (\<lambda>p. (p, p, Val 1)) (toindices lab)"
proof -
  define A where "A = build_laplacian s conns g"
  have l: "length (row A) = length (col A)" "length (col A) = length (data A)"
    unfolding A_def build_laplacian_def by (rule laplacian_lengths)+
  have len: "length (select (map (\<lambda>r. r \<notin> set (toindices lab)) (row A)) (row A))
      = length (select (map (\<lambda>r. r \<notin> set (toindices lab)) (row A)) (col A))"
    "length (select (map (\<lambda>r. r \<notin> set (toindices lab)) (row A)) (col A))
      = length (select (map (\<lambda>r. r \<notin> set (toindices lab)) (row A)) (data A))"
    using l by (simp_all add: length_select)
  have "zip (toindices lab) (zip (toindices lab) (replicate (length (toindices lab)) (Val 1)))
      = map (\<lambda>p. (p, p, Val 1)) (toindices lab)"
    by (rule zip_diag)
  with len select_zip3 [OF l, of "\<lambda>r. r \<notin> set (toindices lab)"] assms show ?thesis
    by (simp add: build_A_def A_def [symmetric] Let_def entries_def)
qed

lemma filter_row_diag:
  "distinct P \<Longrightarrow> p \<in> set P \<Longrightarrow>
   filter (\<lambda>e. fst e = p) (map (\<lambda>p. (p, p, x)) P) = [(p, p, x)]"
  by (induction P) (auto simp: filter_empty_conv)

text \<open>
  Claim C3: when the Dirichlet label array is stored, the row of every Dirichlet node in
  the matrix of \<open>build_A\<close> is the single entry \<open>(p, p, 1)\<close>, and the entries in the row
  of every other node are those of the Laplacian built before the editing, in the same
  order.
\<close>

theorem build_A_dirichlet_rows:
  assumes "props s ''pore.dirichlet'' = Some (BoolArr lab)"
  shows "(\<forall>p. label_at s ''dirichlet'' p \<longrightarrow>
            filter (\<lambda>e. fst e = p) (entries (build_A s conns g)) = [(p, p, Val 1)]) \<and>
         (\<forall>r. \<not> label_at s ''dirichlet'' r \<longrightarrow>
            filter (\<lambda>e. fst e = r) (entries (build_A s conns g))
          = filter (\<lambda>e. fst e = r) (entries (build_laplacian s conns g)))"
proof (intro conjI allI impI)
  fix p assume "label_at s ''dirichlet'' p"
  with assms have p: "p \<in> set (toindices lab)" by (simp add: label_at_def toindices_set)
  have "filter (\<lambda>e. fst e = p)
     (filter (\<lambda>(r, c, v). r \<notin> set (toindices lab)) (entries (build_laplacian s conns g))) = []"
    using p by (auto simp: filter_empty_conv)
  with filter_row_diag [OF toindices_distinct p] show
    "filter (\<lambda>e. fst e = p) (entries (build_A s conns g)) = [(p, p, Val 1)]"
    by (simp add: entries_build_A [OF assms])
next
  fix r assume "\<not> label_at s ''dirichlet'' r"
  with assms have r: "r \<notin> set (toindices lab)" by (simp add: label_at_def toindices_set)
  have 1: "filter (\<lambda>e. fst e = r)
     (filter (\<lambda>(r, c, v). r \<notin> set (toindices lab)) (entries (build_laplacian s conns g)))
     = filter (\<lambda>e. fst e = r) (entries (build_laplacian s conns g))"
    unfolding filter_filter by (rule filter_cong [OF refl]) (use r in auto)
  have 2: "filter (\<lambda>e. fst e = r) (map (\<lambda>p. (p, p, Val 1)) (toindices lab)) = []"
    using r by (auto simp: filter_empty_conv)
  show "filter (\<lambda>e. fst e = r) (entries (build_A s conns g))
          = filter (\<lambda>e. fst e = r) (entries (build_laplacian s conns g))"
    by (simp only: entries_build_A [OF assms] filter_append 1 2 append_Nil2)
qed

theorem build_A_dirichlet_rows_witness:
  "props \<lparr>Np = 2, props = [''pore.dirichlet'' \<mapsto> BoolArr [True, False]], quantity = None\<rparr>
      ''pore.dirichlet'' = Some (BoolArr [True, False]) \<and>
   label_at \<lparr>Np = 2, props = [''pore.dirichlet'' \<mapsto> BoolArr [True, False]], quantity = None\<rparr>
      ''dirichlet'' 0 \<and>
   \<not> label_at \<lparr>Np = 2, props = [''pore.dirichlet'' \<mapsto> BoolArr [True, False]], quantity = None\<rparr>
      ''dirichlet'' 1 \<and>
   filter (\<lambda>e. fst e = 0)
     (entries (build_A \<lparr>Np = 2, props = [''pore.dirichlet'' \<mapsto> BoolArr [True, False]],
        quantity = None\<rparr> [(0, 1)] [Val 3])) = [(0, 0, Val 1)] \<and>
   filter (\<lambda>e. fst e = 1)
     (entries (build_A \<lparr>Np = 2, props = [''pore.dirichlet'' \<mapsto> BoolArr [True, False]],
        quantity = None\<rparr> [(0, 1)] [Val 3])) = [(1, 0, Val 3), (1, 1, Val (- 3))]"
proof -
  let ?s = "\<lparr>Np = 2, props = [''pore.dirichlet'' \<mapsto> BoolArr [True, False]], quantity = None\<rparr>"
  have p: "props ?s ''pore.dirichlet'' = Some (BoolArr [True, False])" by simp
  have l: "label_at ?s ''dirichlet'' 0" "\<not> label_at ?s ''dirichlet'' 1"
    by (simp_all add: label_at_def)
  have e: "filter (\<lambda>e. fst e = 1) (entries (build_laplacian ?s [(0, 1)] [Val 3]))
      = [(1, 0, Val 3), (1, 1, Val (- 3))]"
    by (simp add: build_laplacian_def laplacian_def create_adjacency_matrix_def entries_def
        column_sum_def mat_entry_def fsum_def upt_2)
  from build_A_dirichlet_rows [OF p, of "[(0, 1)]" "[Val 3]"] p l e show ?thesis
    by simp
qed

section \<open>The Laplacian\<close>

lemma entries_laplacian:
  "entries (laplacian m) =
     map (\<lambda>(r, c, v). (r, c, fneg v)) (filter (\<lambda>(r, c, v). r \<noteq> c) (entries m)) @
     map (\<lambda>j. (j, j, fsub (column_sum m j) (mat_entry m j j))) [0..<shape m]"
proof -
  define keep where "keep = filter (\<lambda>(r, c, v). r \<noteq> c) (entries m)"
  define w where "w = (\<lambda>j. fsub (column_sum m j) (mat_entry m j j))"
  have 1: "zip (map (\<lambda>(r, c, v). r) keep) (zip (map (\<lambda>(r, c, v). c) keep)
       (map (\<lambda>(r, c, v). fneg v) keep)) = map (\<lambda>(r, c, v). (r, c, fneg v)) keep"
    unfolding zip3_map by (rule map_cong) auto
  have 2: "zip [0..<shape m] (zip [0..<shape m] (map w [0..<shape m]))
      = map (\<lambda>j. (j, j, w j)) [0..<shape m]"
    using zip3_map [of id "[0..<shape m]" id w] by simp
  show ?thesis
    unfolding laplacian_def Let_def entries_def [of "\<lparr>row = _, col = _, data = _, shape = _\<rparr>"]
      keep_def [symmetric]
    using 1 2 by (simp add: w_def)
qed

lemma entries_adjacency:
  assumes "length gr = length conns"
  shows "entries (create_adjacency_matrix n conns (map fneg (map Val gr))) =
     map (\<lambda>z. (fst (fst z), snd (fst z), Val (- snd z))) (zip conns gr) @
     map (\<lambda>z. (snd (fst z), fst (fst z), Val (- snd z))) (zip conns gr)"
proof -
  have 1: "zip (map fst conns) (zip (map snd conns) (map fneg (map Val gr)))
     = map (\<lambda>z. (fst (fst z), snd (fst z), Val (- snd z))) (zip conns gr)"
    using assms by (induction gr conns rule: list_induct2) simp_all
  have 2: "zip (map snd conns) (zip (map fst conns) (map fneg (map Val gr)))
     = map (\<lambda>z. (snd (fst z), fst (fst z), Val (- snd z))) (zip conns gr)"
    using assms by (induction gr conns rule: list_induct2) simp_all
  show ?thesis using assms
    by (simp add: create_adjacency_matrix_def entries_def 1 2 del: map_map)
qed

lemma fsum_Val_filter:
  "fsum (map (\<lambda>z. Val (H z)) (filter P Z)) = Val (sum_list (map (\<lambda>z. if P z then H z else 0) Z))"
  by (induction Z) (simp_all add: fsum_simps)

lemma no_NaN_reals: "NaN \<notin> set g \<Longrightarrow> \<exists>gr. g = map Val gr"
proof (induction g)
  case Nil
  then show ?case by simp
next
  case (Cons a g)
  then obtain gr where "g = map Val gr" by auto
  moreover from Cons.prems obtain x where "a = Val x" by (cases a) auto
  ultimately have "a # g = map Val (x # gr)" by simp
  then show ?case by (rule exI)
qed

lemma fsum_vals_filter_map:
  "fsum (map (\<lambda>(r, c, v). v) (filter Q (map (\<lambda>z. (R z, C z, Val (H z))) (filter P Z))))
   = Val (sum_list (map (\<lambda>z. if P z \<and> Q (R z, C z, Val (H z)) then H z else 0) Z))"
  by (induction Z) (simp_all add: fsum_simps)

lemma fsum_vals_filter_map':
  "fsum (map (\<lambda>(r, c, v). v) (filter Q (map (\<lambda>z. (R z, C z, Val (H z))) Z)))
   = Val (sum_list (map (\<lambda>z. if Q (R z, C z, Val (H z)) then H z else 0) Z))"
  using fsum_vals_filter_map [of Q R C H "\<lambda>z. True" Z] by simp

lemma neg_keep:
  "map (\<lambda>(r, c, v). (r, c, fneg v))
     (filter (\<lambda>(r, c, v). r \<noteq> c) (map (\<lambda>z. (R z, C z, Val (H z))) Z))
   = map (\<lambda>z. (R z, C z, Val (- H z))) (filter (\<lambda>z. R z \<noteq> C z) Z)"
  by (induction Z) simp_all

lemma filter_diag_eq:
  "i < n \<Longrightarrow> filter (\<lambda>(r, c, v). r = i \<and> c = i) (map (\<lambda>j. (j, j, w j)) [0..<n]) = [(i, i, w i)]"
  by (induction n) (auto simp: filter_empty_conv)

lemma filter_diag_row:
  "i < n \<Longrightarrow> filter (\<lambda>(r, c, v). r = i) (map (\<lambda>j. (j, j, w j)) [0..<n]) = [(i, i, w i)]"
  by (induction n) (auto simp: filter_empty_conv)

lemma filter_diag_off:
  "filter (\<lambda>(r, c, v). r = i \<and> c \<noteq> i) (map (\<lambda>j. (j, j, w j)) [0..<n]) = []"
  by (auto simp: filter_empty_conv)

lemma filter_diag_ne:
  "i \<noteq> j \<Longrightarrow> filter (\<lambda>(r, c, v). r = i \<and> c = j) (map (\<lambda>k. (k, k, w k)) [0..<n]) = []"
  by (auto simp: filter_empty_conv)

lemma entries_build_laplacian:
  assumes "length gr = length conns"
  shows "entries (build_laplacian s conns (map Val gr)) =
     map (\<lambda>z. (fst (fst z), snd (fst z), Val (snd z)))
       (filter (\<lambda>z. fst (fst z) \<noteq> snd (fst z)) (zip conns gr)) @
     map (\<lambda>z. (snd (fst z), fst (fst z), Val (snd z)))
       (filter (\<lambda>z. snd (fst z) \<noteq> fst (fst z)) (zip conns gr)) @
     map (\<lambda>j. (j, j,
        fsub (column_sum (create_adjacency_matrix (Np s) conns (map fneg (map Val gr))) j)
             (mat_entry (create_adjacency_matrix (Np s) conns (map fneg (map Val gr))) j j)))
       [0..<Np s]"
proof -
  have sh: "shape (create_adjacency_matrix (Np s) conns (map fneg (map Val gr))) = Np s"
    by (simp add: create_adjacency_matrix_def)
  show ?thesis
    unfolding build_laplacian_def entries_laplacian sh entries_adjacency [OF assms]
      filter_append map_append neg_keep
    by simp
qed

lemma column_sum_adjacency:
  assumes "length gr = length conns"
  shows "column_sum (create_adjacency_matrix n conns (map fneg (map Val gr))) i =
    Val (sum_list (map (\<lambda>z. if snd (fst z) = i then - snd z else 0) (zip conns gr))
       + sum_list (map (\<lambda>z. if fst (fst z) = i then - snd z else 0) (zip conns gr)))"
  unfolding column_sum_def entries_adjacency [OF assms] filter_append map_append fsum_append
    fsum_vals_filter_map'
  by simp

lemma mat_entry_adjacency:
  assumes "length gr = length conns"
  shows "mat_entry (create_adjacency_matrix n conns (map fneg (map Val gr))) i i =
    Val (sum_list (map (\<lambda>z. if fst (fst z) = i \<and> snd (fst z) = i then - snd z else 0) (zip conns gr))
       + sum_list (map (\<lambda>z. if snd (fst z) = i \<and> fst (fst z) = i then - snd z else 0) (zip conns gr)))"
  unfolding mat_entry_def entries_adjacency [OF assms] filter_append map_append fsum_append
    fsum_vals_filter_map'
  by simp

lemma conductance_between_reals:
  assumes "length gr = length conns"
  shows "conductance_between conns (map Val gr) i j =
     Val (sum_list (map (\<lambda>z. if joins (fst z) i j then snd z else 0) (zip conns gr)))"
  unfolding conductance_between_def using assms
  by (induction gr conns rule: list_induct2) (simp_all add: fsum_simps)

lemma sum_list_pointwise2:
  fixes f g h :: "'a \<Rightarrow> real"
  assumes "\<And>z. f z + g z = h z"
  shows "sum_list (map f Z) + sum_list (map g Z) = sum_list (map h Z)"
  by (simp add: sum_list_addf [symmetric] assms)

lemma sum_list_pointwise0:
  fixes f :: "'a \<Rightarrow> real"
  assumes "\<And>z. f z = 0"
  shows "sum_list (map f Z) = 0"
  by (induction Z) (simp_all add: assms)

lemma sum_list_pointwise4:
  fixes f1 f2 f3 f4 g1 g2 :: "'a \<Rightarrow> real"
  assumes "\<And>z. f1 z + f2 z - (f3 z + f4 z) = - (g1 z + g2 z)"
  shows "sum_list (map f1 Z) + sum_list (map f2 Z) - (sum_list (map f3 Z) + sum_list (map f4 Z))
     = - (sum_list (map g1 Z) + sum_list (map g2 Z))"
proof (induction Z)
  case Nil
  show ?case by simp
next
  case (Cons z Z)
  from Cons.IH assms [of z] show ?case by simp
qed

lemma sum_list_pointwise22:
  fixes f1 f2 g1 g2 :: "'a \<Rightarrow> real"
  assumes "\<And>z. f1 z + f2 z = g1 z + g2 z"
  shows "sum_list (map f1 Z) + sum_list (map f2 Z) = sum_list (map g1 Z) + sum_list (map g2 Z)"
proof (induction Z)
  case Nil
  show ?case by simp
next
  case (Cons z Z)
  from Cons.IH assms [of z] show ?case by simp
qed


lemma sum_offdiag_joins:
  assumes "i \<noteq> j"
  shows "sum_list (map (\<lambda>z. if fst (fst z) \<noteq> snd (fst z) \<and> fst (fst z) = i \<and> snd (fst z) = j
                          then snd z else 0) (Z :: ((nat \<times> nat) \<times> real) list))
       + sum_list (map (\<lambda>z. if snd (fst z) \<noteq> fst (fst z) \<and> snd (fst z) = i \<and> fst (fst z) = j
                          then snd z else 0) Z)
       = sum_list (map (\<lambda>z. if joins (fst z) i j then snd z else (0::real)) Z)"
  by (rule sum_list_pointwise2) (use assms in \<open>auto simp: joins_def prod_eq_iff\<close>)

lemma sum_diag_offdiag:
  "sum_list (map (\<lambda>z. if snd (fst z) = i then - snd z else 0) (Z :: ((nat \<times> nat) \<times> real) list))
     + sum_list (map (\<lambda>z. if fst (fst z) = i then - snd z else 0) Z)
     - (sum_list (map (\<lambda>z. if fst (fst z) = i \<and> snd (fst z) = i then - snd z else 0) Z)
        + sum_list (map (\<lambda>z. if snd (fst z) = i \<and> fst (fst z) = i then - snd z else 0) Z))
   = - (sum_list (map (\<lambda>z. if fst (fst z) \<noteq> snd (fst z) \<and> fst (fst z) = i \<and> snd (fst z) \<noteq> i
                          then snd z else 0) Z)
       + sum_list (map (\<lambda>z. if snd (fst z) \<noteq> fst (fst z) \<and> snd (fst z) = i \<and> fst (fst z) \<noteq> i
                          then snd z else (0::real)) Z))"
proof (rule sum_list_pointwise4)
  fix z :: "(nat \<times> nat) \<times> real"
  show "(if snd (fst z) = i then - snd z else 0) + (if fst (fst z) = i then - snd z else 0)
      - ((if fst (fst z) = i \<and> snd (fst z) = i then - snd z else 0)
        + (if snd (fst z) = i \<and> fst (fst z) = i then - snd z else 0))
     = - ((if fst (fst z) \<noteq> snd (fst z) \<and> fst (fst z) = i \<and> snd (fst z) \<noteq> i
                          then snd z else 0)
       + (if snd (fst z) \<noteq> fst (fst z) \<and> snd (fst z) = i \<and> fst (fst z) \<noteq> i
                          then snd z else 0))"
    by (cases "fst (fst z) = i"; cases "snd (fst z) = i"; simp)
qed

lemma sum_row_offdiag:
  "sum_list (map (\<lambda>z. if fst (fst z) \<noteq> snd (fst z) \<and> fst (fst z) = i then snd z else 0) (Z :: ((nat \<times> nat) \<times> real) list))
     + sum_list (map (\<lambda>z. if snd (fst z) \<noteq> fst (fst z) \<and> snd (fst z) = i then snd z else 0) Z)
   = sum_list (map (\<lambda>z. if fst (fst z) \<noteq> snd (fst z) \<and> fst (fst z) = i \<and> snd (fst z) \<noteq> i
                          then snd z else 0) Z)
       + sum_list (map (\<lambda>z. if snd (fst z) \<noteq> fst (fst z) \<and> snd (fst z) = i \<and> fst (fst z) \<noteq> i
                          then snd z else (0::real)) Z)"
  by (rule sum_list_pointwise22) auto

lemma sum_impossible:
  "sum_list (map (\<lambda>z. if fst (fst z) \<noteq> snd (fst z) \<and> fst (fst z) = i \<and> snd (fst z) = i
                          then snd z else (0::real)) (Z :: ((nat \<times> nat) \<times> real) list)) = 0"
  "sum_list (map (\<lambda>z. if snd (fst z) \<noteq> fst (fst z) \<and> snd (fst z) = i \<and> fst (fst z) = i
                          then snd z else (0::real)) Z) = 0"
  by (rule sum_list_pointwise0, auto)+

lemma laplacian_reals:
  assumes len: "length gr = length conns" and i: "i < Np s"
  defines "L \<equiv> build_laplacian s conns (map Val gr)"
  defines "S \<equiv> sum_list (map (\<lambda>z. if fst (fst z) \<noteq> snd (fst z) \<and> fst (fst z) = i \<and> snd (fst z) \<noteq> i
                          then snd z else 0) (zip conns gr))
       + sum_list (map (\<lambda>z. if snd (fst z) \<noteq> fst (fst z) \<and> snd (fst z) = i \<and> fst (fst z) \<noteq> i
                          then snd z else (0::real)) (zip conns gr))"
  shows "j \<noteq> i \<Longrightarrow> mat_entry L i j = conductance_between conns (map Val gr) i j"
    and "row_offdiag_sum L i = Val S"
    and "mat_entry L i i = Val (- S)"
    and "row_sum L i = Val 0"
proof -
  let ?Z = "zip conns gr"
  define W where "W = (\<lambda>j. fsub
     (column_sum (create_adjacency_matrix (Np s) conns (map fneg (map Val gr))) j)
     (mat_entry (create_adjacency_matrix (Np s) conns (map fneg (map Val gr))) j j))"
  have w: "W i = Val (- S)"
    unfolding W_def column_sum_adjacency [OF len] mat_entry_adjacency [OF len] S_def
    using sum_diag_offdiag [of i ?Z] by simp
  have E: "entries L =
     map (\<lambda>z. (fst (fst z), snd (fst z), Val (snd z)))
       (filter (\<lambda>z. fst (fst z) \<noteq> snd (fst z)) ?Z) @
     map (\<lambda>z. (snd (fst z), fst (fst z), Val (snd z)))
       (filter (\<lambda>z. snd (fst z) \<noteq> fst (fst z)) ?Z) @
     map (\<lambda>j. (j, j, W j)) [0..<Np s]"
    unfolding L_def W_def by (rule entries_build_laplacian [OF len])
  show "mat_entry L i j = conductance_between conns (map Val gr) i j" if "j \<noteq> i"
  proof -
    from that have ne: "i \<noteq> j" by simp
    have "mat_entry L i j =
      Val (sum_list (map (\<lambda>z. if fst (fst z) \<noteq> snd (fst z) \<and> fst (fst z) = i \<and> snd (fst z) = j
                          then snd z else 0) ?Z)
       + sum_list (map (\<lambda>z. if snd (fst z) \<noteq> fst (fst z) \<and> snd (fst z) = i \<and> fst (fst z) = j
                          then snd z else 0) ?Z))"
      unfolding mat_entry_def E filter_append map_append
        fsum_append fsum_vals_filter_map filter_diag_ne [OF ne]
      by (simp add: fsum_simps)
    then show ?thesis
      unfolding conductance_between_reals [OF len] sum_offdiag_joins [OF ne] .
  qed
  show off: "row_offdiag_sum L i = Val S"
    unfolding row_offdiag_sum_def E filter_append map_append
      fsum_append fsum_vals_filter_map filter_diag_off S_def
    by (simp add: fsum_simps)
  have "mat_entry L i i = fadd (Val 0) (fadd (Val 0) (W i))"
    unfolding mat_entry_def E filter_append map_append
      fsum_append fsum_vals_filter_map filter_diag_eq [OF i]
    by (simp add: sum_impossible fsum_simps)
  then show "mat_entry L i i = Val (- S)" by (simp add: w fsum_simps)
  have "row_sum L i =
      fadd (Val (sum_list (map (\<lambda>z. if fst (fst z) \<noteq> snd (fst z) \<and> fst (fst z) = i then snd z else 0) ?Z)
     + sum_list (map (\<lambda>z. if snd (fst z) \<noteq> fst (fst z) \<and> snd (fst z) = i then snd z else 0) ?Z))) (W i)"
    unfolding row_sum_def E filter_append map_append
      fsum_append fsum_vals_filter_map filter_diag_row [OF i]
    by (simp add: fadd_assoc [symmetric] fsum_simps)
  then show "row_sum L i = Val 0"
    unfolding sum_row_offdiag w by (simp add: S_def)
qed

text \<open>
  Claim C2, as the code has it: for conductances without NaN, the matrix assembled by
  \<open>build_A\<close> before any Dirichlet editing has, for distinct nodes \<open>i\<close> and \<open>j\<close>, the
  off-diagonal entry plus the sum of the conductances of the edges joining them (the
  Laplacian transform \<open>L = D - A\<close> negates the weights \<open>-g\<close> of the adjacency matrix); its
  diagonal entry is the negative sum of the off-diagonal entries of the row, and the row
  sums to zero.
\<close>

theorem laplacian_entries:
  assumes "NaN \<notin> set g" and "length g = length conns" and "i < Np s"
  shows "(\<forall>j. j \<noteq> i \<longrightarrow>
            mat_entry (build_laplacian s conns g) i j = conductance_between conns g i j) \<and>
         mat_entry (build_laplacian s conns g) i i
           = fneg (row_offdiag_sum (build_laplacian s conns g) i) \<and>
         row_sum (build_laplacian s conns g) i = Val 0"
proof -
  from no_NaN_reals [OF assms(1)] obtain gr where g: "g = map Val gr" by blast
  with assms(2) have len: "length gr = length conns" by simp
  note r = laplacian_reals [OF len assms(3)]
  show ?thesis unfolding g using r(1) by (simp add: r(2) r(3) r(4))
qed

lemma build_A_no_dirichlet:
  "\<not> has_key s ''pore.dirichlet'' \<Longrightarrow> build_A s conns g = build_laplacian s conns g"
  by (simp add: build_A_def has_key_def)

theorem laplacian_entries_witness:
  "NaN \<notin> set [Val 3] \<and>
   mat_entry (build_laplacian \<lparr>Np = 2, props = Map.empty, quantity = None\<rparr> [(0, 1)] [Val 3]) 0 1
     = conductance_between [(0, 1)] [Val 3] 0 1 \<and>
   conductance_between [(0, 1)] [Val 3] 0 1 = Val 3 \<and>
   mat_entry (build_laplacian \<lparr>Np = 2, props = Map.empty, quantity = None\<rparr> [(0, 1)] [Val 3]) 0 0
     = Val (- 3) \<and>
   row_sum (build_laplacian \<lparr>Np = 2, props = Map.empty, quantity = None\<rparr> [(0, 1)] [Val 3]) 0
     = Val 0"
proof -
  have a: "NaN \<notin> set [Val 3]" "length [Val 3] = length [(0::nat, 1::nat)]"
    "0 < Np \<lparr>Np = 2, props = Map.empty, quantity = None\<rparr>" by simp_all
  have o: "row_offdiag_sum (build_laplacian \<lparr>Np = 2, props = Map.empty, quantity = None\<rparr>
      [(0, 1)] [Val 3]) 0 = Val 3"
    by (simp add: build_laplacian_def laplacian_def create_adjacency_matrix_def entries_def
        column_sum_def mat_entry_def row_offdiag_sum_def upt_2 fsum_simps)
  have c: "conductance_between [(0, 1)] [Val 3] 0 1 = Val 3"
    by (simp add: conductance_between_def joins_def fsum_simps)
  from laplacian_entries [OF a] o c show ?thesis by simp
qed

text \<open>
  One edge of conductance 3 between the nodes 0 and 1: the entry \<open>(0, 1)\<close> of the matrix
  is 3, not minus the sum of the conductances.
\<close>

theorem laplacian_offdiag_positive:
  "NaN \<notin> set [Val 3] \<and>
   mat_entry (build_A \<lparr>Np = 2, props = Map.empty, quantity = None\<rparr> [(0, 1)] [Val 3]) 0 1 = Val 3 \<and>
   fneg (conductance_between [(0, 1)] [Val 3] 0 1) = Val (- 3)"
  by (simp add: build_A_def build_laplacian_def laplacian_def create_adjacency_matrix_def
      entries_def column_sum_def mat_entry_def upt_2 conductance_between_def joins_def fsum_simps)

section \<open>The rate: proofs\<close>

lemma take_at_ok: "list_all (\<lambda>i. i < length a) idx \<Longrightarrow> take_at a idx = Inr (map (\<lambda>i. a ! i) idx)"
  by (simp add: take_at_def)

lemma fsum_map_filter:
  "fsum (map f (filter B xs)) = fsum (map (\<lambda>x. if B x then f x else Val 0) xs)"
  by (induction xs) (simp_all add: fsum_simps)

lemma zip_nth_upt:
  "length xs = length ys \<Longrightarrow> zip xs ys = map (\<lambda>t. (xs ! t, ys ! t)) [0..<length xs]"
  by (rule nth_equalityI) simp_all

lemma group_rate_value:
  assumes v: "valid_conns n conns" and q: "length q = n" and g: "length g = length conns"
  shows "group_rate conns g (FloatArr q) (find_neighbor_throats conns P) P =
     Inr (fsum (map (\<lambda>(e, c). boundary_flux q P e c) (zip conns g)))"
proof -
  define ts where "ts = find_neighbor_throats conns P"
  define B where "B = (\<lambda>t. (fst (conns ! t) \<in> set P) \<noteq> (snd (conns ! t) \<in> set P))"
  have ts: "ts = filter B [0..<length conns]"
    by (simp add: ts_def B_def find_neighbor_throats_def)
  have lt: "\<And>t. t \<in> set ts \<Longrightarrow> t < length conns" by (simp add: ts)
  have inr: "\<And>t. t \<in> set ts \<Longrightarrow> fst (conns ! t) < n \<and> snd (conns ! t) < n"
    using v lt by (simp add: valid_conns_def list_all_iff)
  define i1 where "i1 = (\<lambda>t. if fst (conns ! t) \<notin> set P then snd (conns ! t) else fst (conns ! t))"
  define i2 where "i2 = (\<lambda>t. if fst (conns ! t) \<notin> set P then fst (conns ! t) else snd (conns ! t))"
  have p1: "map (\<lambda>(out, a, b). if out then b else a)
       (zip (map (\<lambda>p. p \<notin> set P) (map fst (map (\<lambda>t. conns ! t) ts)))
         (zip (map fst (map (\<lambda>t. conns ! t) ts)) (map snd (map (\<lambda>t. conns ! t) ts))))
      = map i1 ts"
    by (induction ts) (simp_all add: i1_def case_prod_beta)
  have p2: "map (\<lambda>(out, a, b). if out then a else b)
       (zip (map (\<lambda>p. p \<notin> set P) (map fst (map (\<lambda>t. conns ! t) ts)))
         (zip (map fst (map (\<lambda>t. conns ! t) ts)) (map snd (map (\<lambda>t. conns ! t) ts))))
      = map i2 ts"
    by (induction ts) (simp_all add: i2_def case_prod_beta)
  have b1: "\<And>t. t \<in> set ts \<Longrightarrow> i1 t < length q"
    and b2: "\<And>t. t \<in> set ts \<Longrightarrow> i2 t < length q"
    using inr q by (simp_all add: i1_def i2_def)
  have x1: "index_array (FloatArr q) (map i1 ts) = Inr (FloatArr (map (\<lambda>t. q ! i1 t) ts))"
    using b1 by (simp add: take_at_def list_all_iff)
  have x2: "index_array (FloatArr q) (map i2 ts) = Inr (FloatArr (map (\<lambda>t. q ! i2 t) ts))"
    using b2 by (simp add: take_at_def list_all_iff)
  have gt: "take_at g ts = Inr (map (\<lambda>t. g ! t) ts)"
    using lt g by (simp add: take_at_def list_all_iff)
  have sub: "subtract (FloatArr (map (\<lambda>t. q ! i2 t) ts)) (FloatArr (map (\<lambda>t. q ! i1 t) ts))
      = Inr (map (\<lambda>t. fsub (q ! i2 t) (q ! i1 t)) ts)"
    by (induction ts) simp_all
  have prod: "map (\<lambda>(c, x). fmul c x)
       (zip (map (\<lambda>t. g ! t) ts) (map (\<lambda>t. fsub (q ! i2 t) (q ! i1 t)) ts))
     = map (\<lambda>t. fmul (g ! t) (fsub (q ! i2 t) (q ! i1 t))) ts"
    by (induction ts) simp_all
  have r: "group_rate conns g (FloatArr q) ts P =
      Inr (fsum (map (\<lambda>t. fmul (g ! t) (fsub (q ! i2 t) (q ! i1 t))) ts))"
    unfolding group_rate_def find_connected_pores_def Let_def p1 p2
    by (simp only: x1 x2 gt sub prod sum.case)
  have fl: "(if B t then fmul (g ! t) (fsub (q ! i2 t) (q ! i1 t)) else Val 0)
      = boundary_flux q P (conns ! t) (g ! t)" for t
    by (auto simp: B_def i1_def i2_def boundary_flux_def)
  have "fsum (map (\<lambda>t. fmul (g ! t) (fsub (q ! i2 t) (q ! i1 t))) ts)
      = fsum (map (\<lambda>t. boundary_flux q P (conns ! t) (g ! t)) [0..<length conns])"
    unfolding ts fsum_map_filter fl ..
  also have "map (\<lambda>t. boundary_flux q P (conns ! t) (g ! t)) [0..<length conns]
      = map (\<lambda>(e, c). boundary_flux q P e c) (zip conns g)"
    unfolding zip_nth_upt [OF g [symmetric]] by simp
  finally show ?thesis using r unfolding ts_def by simp
qed

lemma collect_Inr: "collect (map (\<lambda>p. Inr (f p)) P) = Inr (map f P)"
  by (induction P) simp_all

lemma solved_lookup:
  assumes "solved s q"
  shows "(case quantity s of None \<Rightarrow> None | Some key \<Rightarrow> props s key) = Some (FloatArr q)"
    and "length q = Np s"
  using assms by (auto simp: solved_def split: option.splits)

lemma rate_group_value:
  assumes "solved s q" and "valid_conns (Np s) conns" and "length g = length conns"
    and "P \<noteq> []" and "list_all (\<lambda>p. p < Np s) P"
  shows "rate s conns g P ''group'' =
     Inr [fsum (map (\<lambda>(e, c). boundary_flux q P e c) (zip conns g))]"
  using assms(4,5)
  by (simp add: rate_def solved_lookup [OF assms(1)] parse_indices_def
      group_rate_value [OF assms(2) solved_lookup(2) [OF assms(1)] assms(3)])

lemma rate_single_value:
  assumes "solved s q" and "valid_conns (Np s) conns" and "length g = length conns"
    and "P \<noteq> []" and "list_all (\<lambda>p. p < Np s) P"
  shows "rate s conns g P ''single'' =
     Inr (map (\<lambda>p. fsum (map (\<lambda>(e, c). boundary_flux q [p] e c) (zip conns g))) P)"
  using assms(4,5)
  by (simp add: rate_def solved_lookup [OF assms(1)] parse_indices_def collect_Inr
      group_rate_value [OF assms(2) solved_lookup(2) [OF assms(1)] assms(3)])

text \<open>
  Claim C7: for a solved quantity field and a valid, non-empty node set \<open>P\<close>, \<open>rate\<close> in
  the mode \<open>group\<close> returns the sum over all edges of the boundary flux: the conductance
  times the quantity at the endpoint outside \<open>P\<close> minus the quantity at the endpoint inside
  \<open>P\<close> for an edge with exactly one endpoint in \<open>P\<close>, whichever endpoint is stored first,
  and nothing for any other edge.
\<close>

theorem rate_group_boundary_sum:
  assumes "solved s q" and "valid_conns (Np s) conns" and "length g = length conns"
    and "P \<noteq> []" and "list_all (\<lambda>p. p < Np s) P"
  shows "rate s conns g P ''group'' =
     Inr [fsum (map (\<lambda>(e, c). boundary_flux q P e c) (zip conns g))]"
  using assms by (rule rate_group_value)

text \<open>
  Claim C5: for a solved quantity field and a valid, non-empty node set, \<open>rate\<close> returns a
  sequence of length 1 in the mode \<open>group\<close> and one number per given pore in the mode
  \<open>single\<close>.
\<close>

theorem rate_result_lengths:
  assumes "solved s q" and "valid_conns (Np s) conns" and "length g = length conns"
    and "pores \<noteq> []" and "list_all (\<lambda>p. p < Np s) pores"
  shows "(\<exists>rs. rate s conns g pores ''group'' = Inr rs \<and> length rs = 1) \<and>
         (\<exists>rs. rate s conns g pores ''single'' = Inr rs \<and> length rs = length pores)"
  using rate_group_value [OF assms] rate_single_value [OF assms] by simp

theorem rate_group_boundary_sum_witness:
  "solved \<lparr>Np = 3, props = [''pore.pressure'' \<mapsto> FloatArr [Val 4, Val 2, Val 1]],
      quantity = Some ''pore.pressure''\<rparr> [Val 4, Val 2, Val 1] \<and>
   valid_conns 3 [(0, 1), (1, 2), (0, 2)] \<and>
   rate \<lparr>Np = 3, props = [''pore.pressure'' \<mapsto> FloatArr [Val 4, Val 2, Val 1]],
      quantity = Some ''pore.pressure''\<rparr> [(0, 1), (1, 2), (0, 2)] [Val 1, Val 3, Val 5] [0, 2] ''group''
     = Inr [Val 1]"
proof -
  let ?s = "\<lparr>Np = 3, props = [''pore.pressure'' \<mapsto> FloatArr [Val 4, Val 2, Val 1]],
      quantity = Some ''pore.pressure''\<rparr>"
  have a: "solved ?s [Val 4, Val 2, Val 1]" "valid_conns (Np ?s) [(0, 1), (1, 2), (0, 2)]"
    "length [Val 1, Val 3, Val 5] = length [(0::nat, 1::nat), (1, 2), (0, 2)]"
    "[0::nat, 2] \<noteq> []" "list_all (\<lambda>p. p < Np ?s) [0, 2]"
    by (simp_all add: solved_def valid_conns_def)
  from rate_group_boundary_sum [OF a] a(1,2) show ?thesis
    by (simp add: boundary_flux_def fsum_simps)
qed

theorem rate_result_lengths_witness:
  "solved \<lparr>Np = 3, props = [''pore.pressure'' \<mapsto> FloatArr [Val 4, Val 2, Val 1]],
      quantity = Some ''pore.pressure''\<rparr> [Val 4, Val 2, Val 1] \<and>
   valid_conns 3 [(0, 1), (1, 2), (0, 2)] \<and>
   (\<exists>rs. rate \<lparr>Np = 3, props = [''pore.pressure'' \<mapsto> FloatArr [Val 4, Val 2, Val 1]],
      quantity = Some ''pore.pressure''\<rparr> [(0, 1), (1, 2), (0, 2)] [Val 1, Val 3, Val 5] [0, 2] ''group''
       = Inr rs \<and> length rs = 1) \<and>
   (\<exists>rs. rate \<lparr>Np = 3, props = [''pore.pressure'' \<mapsto> FloatArr [Val 4, Val 2, Val 1]],
      quantity = Some ''pore.pressure''\<rparr> [(0, 1), (1, 2), (0, 2)] [Val 1, Val 3, Val 5] [0, 2] ''single''
       = Inr rs \<and> length rs = 2)"
proof -
  let ?s = "\<lparr>Np = 3, props = [''pore.pressure'' \<mapsto> FloatArr [Val 4, Val 2, Val 1]],
      quantity = Some ''pore.pressure''\<rparr>"
  have a: "solved ?s [Val 4, Val 2, Val 1]" "valid_conns (Np ?s) [(0, 1), (1, 2), (0, 2)]"
    "length [Val 1, Val 3, Val 5] = length [(0::nat, 1::nat), (1, 2), (0, 2)]"
    "[0::nat, 2] \<noteq> []" "list_all (\<lambda>p. p < Np ?s) [0, 2]"
    by (simp_all add: solved_def valid_conns_def)
  from rate_result_lengths [OF a] a(1,2) show ?thesis
    by (simp add: numeral_2_eq_2)
qed

section \<open>The effective property: proofs\<close>

lemma fdiv_fdiv: "fdiv (fdiv x a) d = fdiv x (fmul a d)"
  by (cases x; cases a; cases d) simp_all

lemma sorted_pair: "lo < hi \<Longrightarrow> sorted_list_of_set {lo, hi :: real} = [lo, hi]"
  by (simp add: sorted_list_of_set_insert_remove less_imp_le)

lemma unique_two:
  assumes "set xs = {Val lo, Val hi}" and "lo < hi"
  shows "unique xs = [Val lo, Val hi]"
proof -
  have n: "filter (\<lambda>v. v = NaN) xs = []"
    using assms(1) by (auto simp: filter_empty_conv)
  have "set (concat (map (\<lambda>v. case v of Val r \<Rightarrow> [r] | NaN \<Rightarrow> []) xs)) = {lo, hi}"
  proof -
    have "set (concat (map (\<lambda>v. case v of Val r \<Rightarrow> [r] | NaN \<Rightarrow> []) xs))
        = {r. Val r \<in> set xs}"
      by (auto split: fval.splits)
    then show ?thesis unfolding assms(1) by auto
  qed
  then have "sort (remdups (concat (map (\<lambda>v. case v of Val r \<Rightarrow> [r] | NaN \<Rightarrow> []) xs)))
     = sorted_list_of_set {lo, hi}"
    using sorted_list_of_set_sort_remdups
      [of "concat (map (\<lambda>v. case v of Val r \<Rightarrow> [r] | NaN \<Rightarrow> []) xs)"] by simp
  then show ?thesis
    unfolding unique_def n sorted_pair [OF assms(2)] by simp
qed

lemma where_eq_set: "set (where_eq a (Val m)) = {i. i < length a \<and> a ! i = Val m}"
proof -
  have "feq v (Val m) = (v = Val m)" for v by (cases v) auto
  then show ?thesis by (auto simp: where_eq_def)
qed

text \<open>
  Claim C1, as the code has it: when the quantity field has been solved and the values at
  the Dirichlet nodes are exactly two distinct numbers \<open>lo < hi\<close>, \<open>_calc_eff_prop\<close>
  returns the rate into the inlet set (the nodes whose value is \<open>hi\<close>, in the mode
  \<open>group\<close>) times the domain length, divided by the domain area times the outlet value
  minus the inlet value, \<open>lo - hi\<close>: the sorted array of distinct values has the minimum
  first.
\<close>

theorem calc_eff_prop_value:
  assumes sol: "solved s q"
    and lab: "props s ''pore.dirichlet'' = Some (BoolArr lab)" "length lab = Np s"
    and vals: "props s ''pore.dirichlet_value'' = Some (FloatArr vals)" "length vals = Np s"
    and two: "set (map (\<lambda>i. vals ! i) (toindices lab)) = {Val lo, Val hi}" "lo < hi"
    and net: "valid_conns (Np s) conns" "length g = length conns"
  shows "\<exists>r. rate s conns g (where_eq vals (Val hi)) ''group'' = Inr [r] \<and>
     calc_eff_prop s conns g domain_area domain_length =
       Inr (fdiv (fmul r (domain_length (where_eq vals (Val hi)) (where_eq vals (Val lo))))
                 (fmul (domain_area (where_eq vals (Val hi))) (fsub (Val lo) (Val hi))))"
proof -
  define inlets where "inlets = where_eq vals (Val hi)"
  define outlets where "outlets = where_eq vals (Val lo)"
  have key: "\<not> (case quantity s of None \<Rightarrow> True | Some key \<Rightarrow> \<not> has_key s key)"
    using sol by (auto simp: solved_def has_key_def split: option.splits)
  have idx: "list_all (\<lambda>i. i < length vals) (toindices lab)"
    using lab(2) vals(2) by (simp add: list_all_iff toindices_set)
  have at: "take_at vals (toindices lab) = Inr (map (\<lambda>i. vals ! i) (toindices lab))"
    using idx by (simp add: take_at_def)
  have u: "unique (map (\<lambda>i. vals ! i) (toindices lab)) = [Val lo, Val hi]"
    by (rule unique_two [OF two])
  have mx: "amax [Val lo, Val hi] = Inr (Val hi)" and mn: "amin [Val lo, Val hi] = Inr (Val lo)"
    using two(2) by simp_all
  have "Val hi \<in> set (map (\<lambda>i. vals ! i) (toindices lab))" unfolding two(1) by simp
  then obtain i where "i < length vals" "vals ! i = Val hi"
    using lab(2) vals(2) by (auto simp: toindices_set)
  then have "i \<in> set inlets" by (simp add: inlets_def where_eq_set)
  then have ne: "inlets \<noteq> []" by auto
  have rng: "list_all (\<lambda>p. p < Np s) inlets"
    using vals(2) by (simp add: list_all_iff inlets_def where_eq_set)
  define r where "r = fsum (map (\<lambda>(e, c). boundary_flux q inlets e c) (zip conns g))"
  have rt: "rate s conns g inlets ''group'' = Inr [r]"
    unfolding r_def by (rule rate_group_value [OF sol net ne rng])
  have "calc_eff_prop s conns g domain_area domain_length =
     Inr (fdiv (fdiv (fmul r (domain_length inlets outlets)) (domain_area inlets))
               (fsub (Val lo) (Val hi)))"
    unfolding calc_eff_prop_def
    using key two(2)
    by (simp add: lab(1) vals(1) at u Let_def max_absorb2 min_absorb1 inlets_def [symmetric]
        outlets_def [symmetric] rt fsum_simps)
  then show ?thesis
    using rt unfolding fdiv_fdiv inlets_def outlets_def by blast
qed

lemma example_rate:
  "rate \<lparr>Np = 2, props = [''pore.dirichlet'' \<mapsto> BoolArr [True, True],
        ''pore.dirichlet_value'' \<mapsto> FloatArr [Val 2, Val 0],
        ''pore.pressure'' \<mapsto> FloatArr [Val 2, Val 0]], quantity = Some ''pore.pressure''\<rparr>
     [(0, 1)] [Val 3] [0] ''group'' = Inr [Val (- 6)]"
  by (simp add: rate_def parse_indices_def group_rate_def find_neighbor_throats_def
      find_connected_pores_def take_at_def fsum_simps)

lemma example_where:
  "where_eq [Val 2, Val 0] (Val 2) = [0]" "where_eq [Val 2, Val 0] (Val 0) = [1]"
  by (simp_all add: where_eq_def upt_2)

text \<open>
  Two nodes with the values 2 and 0, one edge of conductance 3, area 4 and length 5: the
  rate into the inlet is \<open>-6\<close> and the code returns \<open>15 / 4\<close>, whereas the quotient by the
  area times the inlet value minus the outlet value is \<open>- 15 / 4\<close>.
\<close>

theorem calc_eff_prop_sign:
  "calc_eff_prop \<lparr>Np = 2, props = [''pore.dirichlet'' \<mapsto> BoolArr [True, True],
        ''pore.dirichlet_value'' \<mapsto> FloatArr [Val 2, Val 0],
        ''pore.pressure'' \<mapsto> FloatArr [Val 2, Val 0]], quantity = Some ''pore.pressure''\<rparr>
     [(0, 1)] [Val 3] (\<lambda>face. Val 4) (\<lambda>face_1 face_2. Val 5) = Inr (Val (15 / 4)) \<and>
   rate \<lparr>Np = 2, props = [''pore.dirichlet'' \<mapsto> BoolArr [True, True],
        ''pore.dirichlet_value'' \<mapsto> FloatArr [Val 2, Val 0],
        ''pore.pressure'' \<mapsto> FloatArr [Val 2, Val 0]], quantity = Some ''pore.pressure''\<rparr>
     [(0, 1)] [Val 3] [0] ''group'' = Inr [Val (- 6)] \<and>
   fdiv (fmul (Val (- 6)) (Val 5)) (fmul (Val 4) (fsub (Val 2) (Val 0))) = Val (- (15 / 4))"
  using example_rate
  by (simp add: calc_eff_prop_def has_key_def take_at_def toindices_def upt_2 unique_def
      example_where Let_def fsum_def)

theorem calc_eff_prop_value_witness:
  "solved \<lparr>Np = 2, props = [''pore.dirichlet'' \<mapsto> BoolArr [True, True],
        ''pore.dirichlet_value'' \<mapsto> FloatArr [Val 2, Val 0],
        ''pore.pressure'' \<mapsto> FloatArr [Val 2, Val 0]], quantity = Some ''pore.pressure''\<rparr>
     [Val 2, Val 0] \<and>
   set (map (\<lambda>i. [Val 2, Val 0] ! i) (toindices [True, True])) = {Val 0, Val 2} \<and>
   valid_conns 2 [(0, 1)] \<and>
   calc_eff_prop \<lparr>Np = 2, props = [''pore.dirichlet'' \<mapsto> BoolArr [True, True],
        ''pore.dirichlet_value'' \<mapsto> FloatArr [Val 2, Val 0],
        ''pore.pressure'' \<mapsto> FloatArr [Val 2, Val 0]], quantity = Some ''pore.pressure''\<rparr>
     [(0, 1)] [Val 3] (\<lambda>face. Val 4) (\<lambda>face_1 face_2. Val 5)
     = Inr (fdiv (fmul (Val (- 6)) (Val 5)) (fmul (Val 4) (fsub (Val 0) (Val 2))))"
proof -
  let ?s = "\<lparr>Np = 2, props = [''pore.dirichlet'' \<mapsto> BoolArr [True, True],
        ''pore.dirichlet_value'' \<mapsto> FloatArr [Val 2, Val 0],
        ''pore.pressure'' \<mapsto> FloatArr [Val 2, Val 0]], quantity = Some ''pore.pressure''\<rparr>"
  have a: "solved ?s [Val 2, Val 0]"
    "props ?s ''pore.dirichlet'' = Some (BoolArr [True, True])" "length [True, True] = Np ?s"
    "props ?s ''pore.dirichlet_value'' = Some (FloatArr [Val 2, Val 0])"
    "length [Val 2, Val 0] = Np ?s"
    "set (map (\<lambda>i. [Val 2, Val 0] ! i) (toindices [True, True])) = {Val 0, Val 2}"
    "(0::real) < 2" "valid_conns (Np ?s) [(0, 1)]" "length [Val 3] = length [(0::nat, 1::nat)]"
    by (auto simp: solved_def toindices_def upt_2 valid_conns_def)
  from calc_eff_prop_value [OF a, of "\<lambda>face. Val 4" "\<lambda>face_1 face_2. Val 5"]
  obtain r where r: "rate ?s [(0, 1)] [Val 3] (where_eq [Val 2, Val 0] (Val 2)) ''group'' = Inr [r]"
    "calc_eff_prop ?s [(0, 1)] [Val 3] (\<lambda>face. Val 4) (\<lambda>face_1 face_2. Val 5) =
       Inr (fdiv (fmul r (Val 5)) (fmul (Val 4) (fsub (Val 0) (Val 2))))"
    by blast
  from r(1) have "r = Val (- 6)" unfolding example_where example_rate by simp
  with r(2) a(1,6,8) show ?thesis by simp
qed

section \<open>The stores that the operations build\<close>

text \<open>
  Every store that a sequence of calls builds from a well-formed one is well formed, so
  the hypotheses on the store above hold in every state the operations can reach.
\<close>

lemma same_shape_refl: "same_shape s s"
  by (auto simp: same_shape_def split: option.splits parray.splits)

lemma same_shape_trans:
  assumes "same_shape s s'" and "same_shape s' s''"
  shows "same_shape s s''"
proof -
  have "Np s'' = Np s" using assms by (simp add: same_shape_def)
  moreover have "case props s k of
             None \<Rightarrow> props s'' k = None
           | Some (BoolArr l) \<Rightarrow> (\<exists>l'. props s'' k = Some (BoolArr l') \<and> length l' = length l)
           | Some (FloatArr v) \<Rightarrow> (\<exists>v'. props s'' k = Some (FloatArr v') \<and> length v' = length v)"
    for k
  proof -
    from assms(1) have a: "case props s k of
             None \<Rightarrow> props s' k = None
           | Some (BoolArr l) \<Rightarrow> (\<exists>l'. props s' k = Some (BoolArr l') \<and> length l' = length l)
           | Some (FloatArr v) \<Rightarrow> (\<exists>v'. props s' k = Some (FloatArr v') \<and> length v' = length v)"
      by (simp add: same_shape_def)
    from assms(2) have b: "case props s' k of
             None \<Rightarrow> props s'' k = None
           | Some (BoolArr l) \<Rightarrow> (\<exists>l'. props s'' k = Some (BoolArr l') \<and> length l' = length l)
           | Some (FloatArr v) \<Rightarrow> (\<exists>v'. props s'' k = Some (FloatArr v') \<and> length v' = length v)"
      by (simp add: same_shape_def)
    from a b show ?thesis by (auto split: option.splits parray.splits)
  qed
  ultimately show ?thesis by (simp add: same_shape_def)
qed

lemma put_length: "put a idx vs = Inr a' \<Longrightarrow> length a' = length a"
  by (auto simp: put_def length_fold_upd split: if_splits)

lemma put_bool_shape:
  "put_bool arr ps b = Inr arr' \<Longrightarrow>
   (case arr of BoolArr l \<Rightarrow> \<exists>l'. arr' = BoolArr l' \<and> length l' = length l
              | FloatArr v \<Rightarrow> \<exists>v'. arr' = FloatArr v' \<and> length v' = length v)"
  by (cases arr) (auto simp: put_def length_fold_upd split: if_splits)

lemma put_floats_shape:
  "put_floats arr ps v = Inr arr' \<Longrightarrow>
   (case arr of BoolArr l \<Rightarrow> \<exists>l'. arr' = BoolArr l' \<and> length l' = length l
              | FloatArr v \<Rightarrow> \<exists>v'. arr' = FloatArr v' \<and> length v' = length v)"
  by (cases arr) (auto simp: put_def length_fold_upd split: if_splits sum.splits)

lemma assign_bool_shape: "assign_bool s k ps b = (r, s') \<Longrightarrow> same_shape s s'"
  unfolding assign_bool_def same_shape_def
  by (auto split: option.splits sum.splits parray.splits dest!: put_bool_shape)

lemma assign_floats_shape: "assign_floats s k ps v = (r, s') \<Longrightarrow> same_shape s s'"
  unfolding assign_floats_def same_shape_def
  by (auto split: option.splits sum.splits parray.splits dest!: put_floats_shape)

lemma wf_kind_same_shape:
  assumes "wf_kind s kind" and "same_shape s s'"
  shows "wf_kind s' kind"
proof -
  from assms(2) have n: "Np s' = Np s" by (simp add: same_shape_def)
  from wf_kind_cases [OF assms(1)] show ?thesis
  proof (elim disjE conjE exE)
    assume a: "props s (''pore.'' @ kind) = None" "props s (''pore.'' @ kind @ ''_value'') = None"
    from assms(2) have "props s' k = None" if "props s k = None" for k
      using that unfolding same_shape_def by (auto dest!: spec [of _ k])
    with a show ?thesis unfolding wf_kind_def by simp
  next
    fix l v
    assume a: "props s (''pore.'' @ kind) = Some (BoolArr l)"
      "props s (''pore.'' @ kind @ ''_value'') = Some (FloatArr v)"
      "length l = Np s" "length v = Np s"
    from assms(2) a(1) obtain l' where l': "props s' (''pore.'' @ kind) = Some (BoolArr l')"
      "length l' = length l"
      unfolding same_shape_def by (auto dest!: spec [of _ "''pore.'' @ kind"])
    from assms(2) a(2) obtain v' where v':
      "props s' (''pore.'' @ kind @ ''_value'') = Some (FloatArr v')" "length v' = length v"
      unfolding same_shape_def by (auto dest!: spec [of _ "''pore.'' @ kind @ ''_value''"])
    from l' v' a(3,4) n show ?thesis unfolding wf_kind_def by simp
  qed
qed

lemma wf_kind_frame:
  assumes "wf_kind s kind" and "Np s' = Np s"
    and "props s' (''pore.'' @ kind) = props s (''pore.'' @ kind)"
    and "props s' (''pore.'' @ kind @ ''_value'') = props s (''pore.'' @ kind @ ''_value'')"
  shows "wf_kind s' kind"
  using assms(1) unfolding wf_kind_def assms(2) assms(3) assms(4) .

lemma assign_bool_frame:
  "assign_bool s k ps b = (r, s') \<Longrightarrow> Np s' = Np s \<and> (\<forall>k'. k' \<noteq> k \<longrightarrow> props s' k' = props s k')"
  by (auto simp: assign_bool_def split: option.splits sum.splits)

lemma assign_floats_frame:
  "assign_floats s k ps v = (r, s') \<Longrightarrow> Np s' = Np s \<and> (\<forall>k'. k' \<noteq> k \<longrightarrow> props s' k' = props s k')"
  by (auto simp: assign_floats_def split: option.splits sum.splits)

lemma clear_kind_shape:
  assumes "clear_kind s kind ps = (r, s')"
  shows "same_shape s s'"
proof (cases "has_key s (''pore.'' @ kind)")
  case False
  with assms show ?thesis by (simp add: clear_kind_def same_shape_refl)
next
  case True
  obtain r1 s1 where a: "assign_bool s (''pore.'' @ kind) ps False = (r1, s1)"
    by (cases "assign_bool s (''pore.'' @ kind) ps False")
  note sh1 = assign_bool_shape [OF a]
  show ?thesis
  proof (cases r1)
    case (Some e)
    with assms True a sh1 show ?thesis by (simp add: clear_kind_def)
  next
    case None
    with assms True a
    have "assign_floats s1 (''pore.'' @ kind @ ''_value'') ps (Scalar NaN) = (r, s')"
      by (simp add: clear_kind_def)
    from same_shape_trans [OF sh1 assign_floats_shape [OF this]] show ?thesis .
  qed
qed

lemma remove_BC_shape:
  assumes "remove_BC s pores = (r, s')"
  shows "same_shape s s'"
proof -
  define ps where "ps = (case pores of None \<Rightarrow> [0..<Np s] | Some ps \<Rightarrow> ps)"
  obtain r1 s1 where a: "clear_kind s ''dirichlet'' ps = (r1, s1)"
    by (cases "clear_kind s ''dirichlet'' ps")
  note sh1 = clear_kind_shape [OF a]
  show ?thesis
  proof (cases r1)
    case (Some e)
    with assms a sh1 show ?thesis by (simp add: remove_BC_def ps_def [symmetric])
  next
    case None
    with assms a have "clear_kind s1 ''neumann'' ps = (r, s')"
      by (simp add: remove_BC_def ps_def [symmetric])
    from same_shape_trans [OF sh1 clear_kind_shape [OF this]] show ?thesis .
  qed
qed

lemma apply_BC_steps:
  assumes "apply_BC s ps K v m = (r, s')"
  obtains s1 r2 s2 s3 where
    "s1 = (if \<not> has_key s (''pore.'' @ K) \<or> m = ''overwrite''
           then setitem_bool s (''pore.'' @ K) False else s)"
    "assign_bool s1 (''pore.'' @ K) ps True = (r2, s2)"
    "r2 \<noteq> None \<longrightarrow> s' = s2"
    "s3 = (if \<not> has_key s2 (''pore.'' @ K @ ''_value'') \<or> m = ''overwrite''
           then setitem_float s2 (''pore.'' @ K @ ''_value'') NaN else s2)"
    "r2 = None \<longrightarrow> assign_floats s3 (''pore.'' @ K @ ''_value'') ps v = (r, s')"
proof -
  define s1 where "s1 = (if \<not> has_key s (''pore.'' @ K) \<or> m = ''overwrite''
                then setitem_bool s (''pore.'' @ K) False else s)"
  obtain r2 s2 where a: "assign_bool s1 (''pore.'' @ K) ps True = (r2, s2)"
    by (cases "assign_bool s1 (''pore.'' @ K) ps True")
  define s3 where "s3 = (if \<not> has_key s2 (''pore.'' @ K @ ''_value'') \<or> m = ''overwrite''
                     then setitem_float s2 (''pore.'' @ K @ ''_value'') NaN else s2)"
  have 3: "r2 \<noteq> None \<longrightarrow> s' = s2"
    using assms a unfolding apply_BC_def s1_def [symmetric] Let_def by auto
  have 5: "r2 = None \<longrightarrow> assign_floats s3 (''pore.'' @ K @ ''_value'') ps v = (r, s')"
    using assms a unfolding apply_BC_def s1_def [symmetric] Let_def s3_def by auto
  from that [OF s1_def a 3 s3_def 5] show thesis .
qed

lemma apply_BC_frame:
  assumes "apply_BC s ps K v m = (r, s')"
    and "k \<noteq> ''pore.'' @ K" and "k \<noteq> ''pore.'' @ K @ ''_value''"
  shows "Np s' = Np s \<and> props s' k = props s k"
proof -
  from apply_BC_steps [OF assms(1)] obtain s1 r2 s2 s3 where st:
    "s1 = (if \<not> has_key s (''pore.'' @ K) \<or> m = ''overwrite''
           then setitem_bool s (''pore.'' @ K) False else s)"
    "assign_bool s1 (''pore.'' @ K) ps True = (r2, s2)"
    "r2 \<noteq> None \<longrightarrow> s' = s2"
    "s3 = (if \<not> has_key s2 (''pore.'' @ K @ ''_value'') \<or> m = ''overwrite''
           then setitem_float s2 (''pore.'' @ K @ ''_value'') NaN else s2)"
    "r2 = None \<longrightarrow> assign_floats s3 (''pore.'' @ K @ ''_value'') ps v = (r, s')"
    by blast
  have 1: "Np s1 = Np s \<and> props s1 k = props s k"
    using assms(2) by (simp add: st(1) setitem_bool_def)
  have 2: "Np s2 = Np s1 \<and> props s2 k = props s1 k"
    using assign_bool_frame [OF st(2)] assms(2) by simp
  have 3: "Np s3 = Np s2 \<and> props s3 k = props s2 k"
    using assms(3) by (simp add: st(4) setitem_float_def)
  show ?thesis
  proof (cases r2)
    case None
    with st(5) have "assign_floats s3 (''pore.'' @ K @ ''_value'') ps v = (r, s')" by simp
    from assign_floats_frame [OF this] assms(3) 1 2 3 show ?thesis by simp
  next
    case (Some e)
    with st(3) 1 2 show ?thesis by simp
  qed
qed

lemma apply_BC_wf_same:
  assumes wf: "wf_kind s K" and lt: "list_all (\<lambda>p. p < Np s) ps"
    and ap: "apply_BC s ps K v m = (r, s')"
  shows "wf_kind s' K"
proof -
  define lk where "lk = ''pore.'' @ K"
  define vk where "vk = ''pore.'' @ K @ ''_value''"
  have ne: "lk \<noteq> vk" by (simp add: lk_def vk_def)
  from apply_BC_steps [OF ap] obtain s1 r2 s2 s3 where st:
    "s1 = (if \<not> has_key s lk \<or> m = ''overwrite'' then setitem_bool s lk False else s)"
    "assign_bool s1 lk ps True = (r2, s2)"
    "r2 \<noteq> None \<longrightarrow> s' = s2"
    "s3 = (if \<not> has_key s2 vk \<or> m = ''overwrite'' then setitem_float s2 vk NaN else s2)"
    "r2 = None \<longrightarrow> assign_floats s3 vk ps v = (r, s')"
    unfolding lk_def vk_def by blast
  define J where "J = (\<lambda>t :: algorithm. Np t = Np s \<and>
     (\<exists>l. props t lk = Some (BoolArr l) \<and> length l = Np s) \<and>
     (props t vk = None \<or> (\<exists>x. props t vk = Some (FloatArr x) \<and> length x = Np s)))"
  have J_shape: "J t'" if "J t" "same_shape t t'" for t t'
  proof -
    from that(2) have n: "Np t' = Np t" by (simp add: same_shape_def)
    from that(1) obtain l where l: "props t lk = Some (BoolArr l)" "length l = Np s"
      by (auto simp: J_def)
    with that(2) obtain l' where l': "props t' lk = Some (BoolArr l')" "length l' = Np s"
      unfolding same_shape_def by (auto dest!: spec [of _ lk])
    from that(1) have "props t vk = None \<or> (\<exists>x. props t vk = Some (FloatArr x) \<and> length x = Np s)"
      by (simp add: J_def)
    then have "props t' vk = None \<or> (\<exists>x. props t' vk = Some (FloatArr x) \<and> length x = Np s)"
      using that(2) unfolding same_shape_def by (auto dest!: spec [of _ vk])
    with l' n that(1) show ?thesis by (auto simp: J_def)
  qed
  have J_wf: "wf_kind t K" if "J t" "props t vk \<noteq> None" for t
    using that unfolding J_def wf_kind_def lk_def [symmetric] vk_def [symmetric] by auto
  from wf_kind_cases [OF wf] have cs: "(props s lk = None \<and> props s vk = None) \<or>
    (\<exists>l x. props s lk = Some (BoolArr l) \<and> props s vk = Some (FloatArr x) \<and>
       length l = Np s \<and> length x = Np s)"
    unfolding lk_def vk_def .
  have J1: "J s1"
    using cs ne by (auto simp: st(1) J_def setitem_bool_def has_key_def)
  have J2: "J s2" by (rule J_shape [OF J1 assign_bool_shape [OF st(2)]])
  show ?thesis
  proof (cases r2)
    case None
    have J3: "J s3" using J2 ne by (auto simp: st(4) J_def setitem_float_def)
    have v3: "props s3 vk \<noteq> None"
      by (auto simp: st(4) setitem_float_def has_key_def)
    from None st(5) have a: "assign_floats s3 vk ps v = (r, s')" by simp
    have "wf_kind s3 K" by (rule J_wf [OF J3 v3])
    from wf_kind_same_shape [OF this assign_floats_shape [OF a]] show ?thesis .
  next
    case (Some e)
    with st(3) have s': "s' = s2" by simp
    have "s1 = s"
    proof (rule ccontr)
      assume "s1 \<noteq> s"
      then have "s1 = setitem_bool s lk False" by (auto simp: st(1) split: if_splits)
      with assign_bool_fresh [OF lt, of lk False True] st(2) Some show False by simp
    qed
    with st(2) have "same_shape s s2" by (auto dest: assign_bool_shape)
    from wf_kind_same_shape [OF wf this] s' show ?thesis by simp
  qed
qed

lemma set_boundary_conditions_wf:
  assumes wf: "wf_kind s kind" and kind: "kind \<in> {''dirichlet'', ''neumann''}"
    and call: "set_boundary_conditions s ps K v m = (r, s')"
  shows "wf_kind s' kind"
proof (cases "K \<in> {''dirichlet'', ''neumann'', ''neumann_group''}
    \<and> m \<in> {''merge'', ''overwrite'', ''remove''} \<and> list_all (\<lambda>p. p < Np s) ps")
  case False
  with call have "s' = s"
    by (auto simp: set_boundary_conditions_def parse_mode_def parse_indices_def
        split: if_splits sum.splits)
  with wf show ?thesis by simp
next
  case True
  show ?thesis
  proof (cases "m = ''remove''")
    case rm: True
    with True call have "remove_BC s (Some ps) = (r, s')"
      by (auto simp: set_boundary_conditions_def parse_mode_def parse_indices_def)
    from wf_kind_same_shape [OF wf remove_BC_shape [OF this]] show ?thesis .
  next
    case nr: False
    show ?thesis
    proof (cases "size_of v > 1 \<and> size_of v \<noteq> length ps")
      case sz: True
      with True nr call have "s' = s"
        by (auto simp: set_boundary_conditions_def parse_mode_def parse_indices_def)
      with wf show ?thesis by simp
    next
      case sz: False
      with True nr call have ap: "apply_BC s ps K v m = (r, s')"
        by (auto simp: set_boundary_conditions_def parse_mode_def parse_indices_def)
      from True have lt: "list_all (\<lambda>p. p < Np s) ps" by simp
      show ?thesis
      proof (cases "K = kind")
        case True
        with apply_BC_wf_same [OF _ lt ap] wf show ?thesis by simp
      next
        case False
        with True kind have ne: "''pore.'' @ kind \<noteq> ''pore.'' @ K"
          "''pore.'' @ kind \<noteq> ''pore.'' @ K @ ''_value''"
          "''pore.'' @ kind @ ''_value'' \<noteq> ''pore.'' @ K"
          "''pore.'' @ kind @ ''_value'' \<noteq> ''pore.'' @ K @ ''_value''"
          by auto
        from apply_BC_frame [OF ap ne(1,2)] apply_BC_frame [OF ap ne(3,4)]
        show ?thesis by (intro wf_kind_frame [OF wf]) simp_all
      qed
    qed
  qed
qed

lemma do_call_wf:
  assumes "wf_kind s kind" and "kind \<in> {''dirichlet'', ''neumann''}"
  shows "wf_kind (do_call s c) kind"
proof (cases c)
  case (SetBC ps K v m)
  obtain r s' where a: "set_boundary_conditions s ps K v m = (r, s')"
    by (cases "set_boundary_conditions s ps K v m")
  from set_boundary_conditions_wf [OF assms a] a SetBC show ?thesis by simp
next
  case (RemoveBC ps)
  obtain r s' where a: "remove_BC s ps = (r, s')" by (cases "remove_BC s ps")
  from wf_kind_same_shape [OF assms(1) remove_BC_shape [OF a]] a RemoveBC show ?thesis by simp
qed

lemma foldl_do_call_wf:
  "wf_kind s kind \<Longrightarrow> kind \<in> {''dirichlet'', ''neumann''} \<Longrightarrow> wf_kind (foldl do_call s cs) kind"
  by (induction cs arbitrary: s) (simp_all add: do_call_wf)

lemma fresh_wf: "props s = Map.empty \<Longrightarrow> wf_kind s kind"
  by (simp add: wf_kind_def)

end
